theory Spec2Isabelle
  imports Complex_Main
begin

section \<open>Numbers\<close>

text \<open>
  A TypeScript \<open>number\<close> is a double. A finite double is modelled by the rational it
  denotes, next to the three special values; the two zeros are one value (no operation
  used by \<open>index.ts\<close> tells them apart). The sum, difference or product of two finite values
  is the exact result rounded to the nearest double, ties to the even significand, and an
  infinity when the rounded result is out of range. The comparisons, \<open>Math.min\<close>, truthiness
  and \<open>!=\<close> are those of the language, with every comparison against \<open>NaN\<close> false.
\<close>

datatype number = Fin rat | NaN | PInf | NInf

subsection \<open>Rounding to a double\<close>

text \<open>
  The binary exponent of a rational: \<open>log2_up\<close> counts the halvings that bring a value of at
  least \<open>1\<close> below \<open>2\<close>, \<open>log2_down\<close> the doublings that bring a positive value below \<open>1\<close> up
  to \<open>1\<close>.
\<close>

function log2_up :: "rat \<Rightarrow> int" where
  "log2_up x = (if x < 2 then 0 else log2_up (x / 2) + 1)"
  by pat_completeness auto
termination
proof (relation "measure (\<lambda>x. nat \<lceil>x\<rceil>)")
  show "wf (measure (\<lambda>x. nat \<lceil>x\<rceil>))" by simp
next
  fix x :: rat
  assume "\<not> x < 2"
  then have "x / 2 \<le> x - 1" by simp
  then have "\<lceil>x / 2\<rceil> \<le> \<lceil>x - 1\<rceil>" by (rule ceiling_mono)
  moreover have "0 < \<lceil>x\<rceil>" using \<open>\<not> x < 2\<close> by (simp add: ceiling_less_iff not_less)
  ultimately show "(x / 2, x) \<in> measure (\<lambda>x. nat \<lceil>x\<rceil>)" by simp
qed

function log2_down :: "rat \<Rightarrow> int" where
  "log2_down x = (if x \<le> 0 \<or> 1 \<le> x then 0 else log2_down (x * 2) - 1)"
  by pat_completeness auto
termination
proof (relation "measure (\<lambda>x. nat \<lceil>1 / x\<rceil>)")
  show "wf (measure (\<lambda>x. nat \<lceil>1 / x\<rceil>))" by simp
next
  fix x :: rat
  assume "\<not> (x \<le> 0 \<or> 1 \<le> x)"
  then have x: "0 < x" "x < 1" by simp_all
  then have big: "1 < 1 / x" by simp
  have "2 \<le> \<lceil>1 / x\<rceil>" using big by (simp add: le_ceiling_iff)
  moreover have "\<lceil>1 / (x * 2)\<rceil> < \<lceil>1 / x\<rceil>"
  proof (cases "1 / x \<le> 2")
    case True
    then have "1 / (x * 2) \<le> 1" using x by (simp add: field_simps)
    then have "\<lceil>1 / (x * 2)\<rceil> \<le> 1" by (simp only: ceiling_le_iff of_int_1)
    with \<open>2 \<le> \<lceil>1 / x\<rceil>\<close> show ?thesis by linarith
  next
    case False
    then have "1 / (x * 2) \<le> 1 / x - 1" using x by (simp add: field_simps)
    then have "\<lceil>1 / (x * 2)\<rceil> \<le> \<lceil>1 / x - 1\<rceil>" by (rule ceiling_mono)
    then show ?thesis by simp
  qed
  ultimately show "(x * 2, x) \<in> measure (\<lambda>x. nat \<lceil>1 / x\<rceil>)"
    using x by (simp add: mult.commute)
qed

definition exponent :: "rat \<Rightarrow> int" where
  "exponent x = (if 1 \<le> \<bar>x\<bar> then log2_up \<bar>x\<bar> else log2_down \<bar>x\<bar>)"

text \<open>The nearest integer, the even one of the two when they are equally near.\<close>

definition round_half_even :: "rat \<Rightarrow> int" where
  "round_half_even y =
     (if y - of_int \<lfloor>y\<rfloor> < 1 / 2 then \<lfloor>y\<rfloor>
      else if 1 / 2 < y - of_int \<lfloor>y\<rfloor> then \<lfloor>y\<rfloor> + 1
      else if even \<lfloor>y\<rfloor> then \<lfloor>y\<rfloor> else \<lfloor>y\<rfloor> + 1)"

text \<open>
  The smallest positive double, and the spacing of the doubles around \<open>x\<close>: 53 significant
  bits, and no exponent below \<open>-1022\<close>.
\<close>

definition min_double :: rat where
  "min_double = power_int 2 (- 1074)"

definition double_ulp :: "rat \<Rightarrow> rat" where
  "double_ulp x = power_int 2 (max (exponent x) (- 1022) - 52)"

text \<open>A result whose exponent is above \<open>1023\<close> is an infinity.\<close>

definition round_double :: "rat \<Rightarrow> number" where
  "round_double x =
     (let v = of_int (round_half_even (x / double_ulp x)) * double_ulp x
      in if exponent v < 1024 then Fin v else if 0 < v then PInf else NInf)"

declare log2_up.simps [simp del]
declare log2_down.simps [simp del]

text \<open>A value is a double when rounding leaves it as it is.\<close>

definition is_double :: "rat \<Rightarrow> bool" where
  "is_double x = (round_double x = Fin x)"

subsection \<open>Arithmetic and comparisons\<close>

fun js_neg :: "number \<Rightarrow> number" where
  "js_neg (Fin a) = Fin (- a)"
| "js_neg NaN = NaN"
| "js_neg PInf = NInf"
| "js_neg NInf = PInf"

fun js_add :: "number \<Rightarrow> number \<Rightarrow> number" where
  "js_add (Fin a) (Fin b) = round_double (a + b)"
| "js_add NaN _ = NaN"
| "js_add _ NaN = NaN"
| "js_add PInf NInf = NaN"
| "js_add NInf PInf = NaN"
| "js_add PInf _ = PInf"
| "js_add _ PInf = PInf"
| "js_add NInf _ = NInf"
| "js_add _ NInf = NInf"

definition js_sub :: "number \<Rightarrow> number \<Rightarrow> number" where
  "js_sub a b = js_add a (js_neg b)"

fun js_mul :: "number \<Rightarrow> number \<Rightarrow> number" where
  "js_mul (Fin a) (Fin b) = round_double (a * b)"
| "js_mul NaN _ = NaN"
| "js_mul _ NaN = NaN"
| "js_mul (Fin a) PInf = (if a = 0 then NaN else if 0 < a then PInf else NInf)"
| "js_mul (Fin a) NInf = (if a = 0 then NaN else if 0 < a then NInf else PInf)"
| "js_mul PInf (Fin b) = (if b = 0 then NaN else if 0 < b then PInf else NInf)"
| "js_mul NInf (Fin b) = (if b = 0 then NaN else if 0 < b then NInf else PInf)"
| "js_mul PInf PInf = PInf"
| "js_mul NInf NInf = PInf"
| "js_mul PInf NInf = NInf"
| "js_mul NInf PInf = NInf"

fun js_lt :: "number \<Rightarrow> number \<Rightarrow> bool" where
  "js_lt (Fin a) (Fin b) = (a < b)"
| "js_lt (Fin a) PInf = True"
| "js_lt NInf (Fin b) = True"
| "js_lt NInf PInf = True"
| "js_lt _ _ = False"

definition js_gt :: "number \<Rightarrow> number \<Rightarrow> bool" where
  "js_gt a b = js_lt b a"

fun js_le :: "number \<Rightarrow> number \<Rightarrow> bool" where
  "js_le (Fin a) (Fin b) = (a \<le> b)"
| "js_le NaN _ = False"
| "js_le _ NaN = False"
| "js_le NInf _ = True"
| "js_le _ PInf = True"
| "js_le _ _ = False"

text \<open>\<open>a != b\<close> on two numbers.\<close>

definition js_ne :: "number \<Rightarrow> number \<Rightarrow> bool" where
  "js_ne a b = (if a = NaN then True else if b = NaN then True else a \<noteq> b)"

text \<open>\<open>Math.min(a, b)\<close>.\<close>

definition js_min :: "number \<Rightarrow> number \<Rightarrow> number" where
  "js_min a b = (if a = NaN then NaN else if b = NaN then NaN else if js_le a b then a else b)"

text \<open>
  Truthiness of an optional number: \<open>undefined\<close>, \<open>0\<close> and \<open>NaN\<close> are falsy. An optional
  field that is absent is \<open>None\<close>.
\<close>

fun truthy_number :: "number option \<Rightarrow> bool" where
  "truthy_number None = False"
| "truthy_number (Some (Fin a)) = (a \<noteq> 0)"
| "truthy_number (Some NaN) = False"
| "truthy_number (Some PInf) = True"
| "truthy_number (Some NInf) = True"

fun truthy_bool :: "bool option \<Rightarrow> bool" where
  "truthy_bool None = False"
| "truthy_bool (Some b) = b"

subsection \<open>Rendering a number in a template string\<close>

fun digits :: "nat \<Rightarrow> string" where
  "digits n = (if n < 10 then [''0123456789'' ! n]
               else digits (n div 10) @ [''0123456789'' ! (n mod 10)])"

declare digits.simps [simp del]

definition int_to_string :: "int \<Rightarrow> string" where
  "int_to_string i = (if i < 0 then ''-'' @ digits (nat (- i)) else digits (nat i))"

text \<open>
  \<open>`${x}`\<close> for a number \<open>x\<close>. An integer of magnitude at most \<open>2^53\<close> is written in decimal
  digits. For every other finite value the language prints the shortest decimal that
  reads back as the same double, which depends on the binary representation: that part
  is the parameter \<open>other\<close>.
\<close>

definition number_to_string :: "(rat \<Rightarrow> string) \<Rightarrow> number \<Rightarrow> string" where
  "number_to_string other x =
     (case x of
        NaN \<Rightarrow> ''NaN''
      | PInf \<Rightarrow> ''Infinity''
      | NInf \<Rightarrow> ''-Infinity''
      | Fin q \<Rightarrow>
          if of_int \<lfloor>q\<rfloor> = q \<and> \<bar>q\<bar> \<le> 2 ^ 53 then int_to_string \<lfloor>q\<rfloor> else other q)"

section \<open>The outside world\<close>

text \<open>
  The calls that leave the program (\<open>ffprobe\<close>, a run of an \<open>ffmpeg\<close> command, the
  caller's \<open>fProcess\<close>) are recorded, in order, in a trace, each with its outcome. What such a
  call answers is a parameter, and may depend on everything that happened before it.
  A rejected promise or a thrown exception is the error value it carries.
\<close>

datatype error = Err string

text \<open>The calls on the \<open>fluent-ffmpeg\<close> command builder, in the order they are made.\<close>

datatype ffcall =
    Input string
  | SetStartTime number
  | SetDuration number
  | NoVideo
  | AudioChannels nat
  | AudioBitrate number
  | AudioFilters string
  | Output string

datatype event =
    EvProbe string "error option"
  | EvRun "ffcall list" "error option"
  | EvProcess string bool "error option"

record ffprobe_format =
  format_duration :: "number option"
  format_bit_rate :: "number option"

record env =
  ffprobe :: "event list \<Rightarrow> string \<Rightarrow> error + ffprobe_format"
  ffmpeg_run :: "event list \<Rightarrow> ffcall list \<Rightarrow> error option"
  other_number_text :: "rat \<Rightarrow> string"

type_synonym handler = "event list \<Rightarrow> string \<Rightarrow> bool \<Rightarrow> error option"

section \<open>index.ts\<close>

text \<open>
  The model follows \<open>src/index.ts\<close>. The repository also holds an earlier copy of the file,
  in which \<open>getAudioFileSegment\<close> takes its bounds as arguments and \<open>recordMicrophone\<close> writes
  to a fixed path; its output path and its chunking loop are the same.
\<close>

definition TARGET_VOICE_TO_TEXT_BITRATE :: number where
  "TARGET_VOICE_TO_TEXT_BITRATE = Fin 22050"

record AudioSegmentSettings =
  startSecs :: number
  endSecs :: number
  toMono :: "bool option"
  bitrateConversion :: "number option"
  playbackSpeed :: "number option"

record AudioFileInfo =
  duration :: number
  bit_rate :: number

subsection \<open>getAudioFileInfo\<close>

definition nullish_or :: "number option \<Rightarrow> number \<Rightarrow> number" where
  "nullish_or v d = (case v of None \<Rightarrow> d | Some x \<Rightarrow> x)"

definition getAudioFileInfo ::
  "env \<Rightarrow> string \<Rightarrow> event list \<Rightarrow> (error + AudioFileInfo) \<times> event list" where
  "getAudioFileInfo e path tr =
     (case ffprobe e tr path of
        Inl err \<Rightarrow> (Inl err, tr @ [EvProbe path (Some err)])
      | Inr fmt \<Rightarrow>
          (Inr \<lparr>duration = nullish_or (format_duration fmt) (Fin 0),
                bit_rate = nullish_or (format_bit_rate fmt) (Fin 0)\<rparr>,
           tr @ [EvProbe path None]))"

subsection \<open>getAudioFileSegment\<close>

text \<open>Line 56: the segmented path.\<close>

definition segment_newPath :: "env \<Rightarrow> string \<Rightarrow> AudioSegmentSettings \<Rightarrow> string" where
  "segment_newPath e path settings =
     path @ ''.segment-'' @ number_to_string (other_number_text e) (startSecs settings)
          @ ''-'' @ number_to_string (other_number_text e) (endSecs settings) @ ''.mp3''"

text \<open>Line 75: the playback speed that is used.\<close>

definition effective_playbackSpeed :: "AudioSegmentSettings \<Rightarrow> number" where
  "effective_playbackSpeed settings =
     (if \<not> truthy_number (playbackSpeed settings) then Fin 1
      else if js_lt (the (playbackSpeed settings)) (Fin (1 / 2)) then Fin (1 / 2)
      else if js_gt (the (playbackSpeed settings)) (Fin 2) then Fin 2
      else the (playbackSpeed settings))"

text \<open>Lines 59 to 82: the command that is built.\<close>

definition segment_cmd :: "env \<Rightarrow> string \<Rightarrow> AudioSegmentSettings \<Rightarrow> ffcall list" where
  "segment_cmd e path settings =
     [Input path,
      SetStartTime (startSecs settings),
      SetDuration (js_sub (endSecs settings) (startSecs settings)),
      NoVideo]
     @ (if truthy_bool (toMono settings) then [AudioChannels 1] else [])
     @ (if truthy_number (bitrateConversion settings)
        then [AudioBitrate (the (bitrateConversion settings))] else [])
     @ (if js_ne (effective_playbackSpeed settings) (Fin 1)
        then [AudioFilters (''atempo='' @ number_to_string (other_number_text e)
                                             (effective_playbackSpeed settings))]
        else [])
     @ [Output (segment_newPath e path settings)]"

definition getAudioFileSegment ::
  "env \<Rightarrow> string \<Rightarrow> AudioSegmentSettings \<Rightarrow> event list \<Rightarrow> (error + string) \<times> event list" where
  "getAudioFileSegment e path settings tr =
     (let newPath = segment_newPath e path settings;
          cmd = segment_cmd e path settings
      in case ffmpeg_run e tr cmd of
           None \<Rightarrow> (Inr newPath, tr @ [EvRun cmd None])
         | Some err \<Rightarrow> (Inl err, tr @ [EvRun cmd (Some err)]))"

subsection \<open>processAudioFileInChunks\<close>

text \<open>
  Lines 146 to 157. The loop may run forever, so it is a partial function: \<open>None\<close> is a
  run that does not return. A run that returns gives the promise's outcome (\<open>Inr ()\<close>
  resolved, \<open>Inl err\<close> rejected) and the trace.
\<close>

partial_function (option) chunk_loop ::
  "env \<Rightarrow> string \<Rightarrow> number \<Rightarrow> number \<Rightarrow> number \<Rightarrow> handler \<Rightarrow> number \<Rightarrow> number
     \<Rightarrow> event list \<Rightarrow> ((error + unit) \<times> event list) option" where
  "chunk_loop e path chunkSecs overlapSecs speed fProcess dur startS tr =
     (if js_lt startS dur then
        (let endS = js_min (js_add startS chunkSecs) dur in
         case getAudioFileSegment e path
                \<lparr>startSecs = startS, endSecs = endS, toMono = Some True,
                 bitrateConversion = Some TARGET_VOICE_TO_TEXT_BITRATE,
                 playbackSpeed = Some speed\<rparr> tr of
           (Inl err, tr1) \<Rightarrow> Some (Inl err, tr1)
         | (Inr chunkPath, tr1) \<Rightarrow>
             (case fProcess tr1 chunkPath True of
                Some err \<Rightarrow> Some (Inl err, tr1 @ [EvProcess chunkPath True (Some err)])
              | None \<Rightarrow>
                  chunk_loop e path chunkSecs overlapSecs speed fProcess dur
                    (js_add startS (js_sub chunkSecs overlapSecs))
                    (tr1 @ [EvProcess chunkPath True None])))
      else Some (Inr (), tr))"

declare chunk_loop.simps [code]

definition processAudioFileInChunks ::
  "env \<Rightarrow> string \<Rightarrow> number \<Rightarrow> number \<Rightarrow> number \<Rightarrow> handler
     \<Rightarrow> event list \<Rightarrow> ((error + unit) \<times> event list) option" where
  "processAudioFileInChunks e path chunkSecs overlapSecs speed fProcess tr =
     (case getAudioFileInfo e path tr of
        (Inl err, tr1) \<Rightarrow> Some (Inl err, tr1)
      | (Inr info, tr1) \<Rightarrow>
          if js_le (duration info) (js_add chunkSecs (js_mul overlapSecs (Fin 2))) then
            (case fProcess tr1 path False of
               Some err \<Rightarrow> Some (Inl err, tr1 @ [EvProcess path False (Some err)])
             | None \<Rightarrow> Some (Inr (), tr1 @ [EvProcess path False None]))
          else chunk_loop e path chunkSecs overlapSecs speed fProcess (duration info) (Fin 0) tr1)"

subsection \<open>stopPlayingMusic and recordMicrophone\<close>

text \<open>
  \<open>stopPlayingMusic\<close> starts two detached shell commands and waits for neither; they are
  named here by what they do, their text is not modelled.
\<close>

datatype background_command = PauseYouTubeInChrome | PauseSpotify

datatype spawned = RunBashWithoutWaiting background_command | Spawn string "string list"

definition stopPlayingMusic :: "spawned list" where
  "stopPlayingMusic =
     [RunBashWithoutWaiting PauseYouTubeInChrome, RunBashWithoutWaiting PauseSpotify]"

text \<open>
  A promise is pending until it is settled, and settling a settled promise changes
  nothing. \<open>recordMicrophone\<close> keeps only the \<open>resolve\<close> function of its promise
  (\<open>pathResolve\<close>).
\<close>

datatype promise = Pending | Resolved string | Rejected error

definition pathResolve :: "promise \<Rightarrow> string \<Rightarrow> promise" where
  "pathResolve p v = (case p of Pending \<Rightarrow> Resolved v | Resolved w \<Rightarrow> p | Rejected err \<Rightarrow> p)"

record recording =
  completedPathPromise :: promise
  console :: "string list"
  spawns :: "spawned list"
  kills :: nat

text \<open>Lines 174 to 194: what the call itself does, before any event arrives.\<close>

definition recordMicrophone :: "env \<Rightarrow> string \<Rightarrow> recording" where
  "recordMicrophone e outPath =
     \<lparr>completedPathPromise = Pending,
      console = [],
      spawns = stopPlayingMusic @
        [Spawn ''sox'' [''-d'', ''-t'', ''mp3'', ''-c'', ''1'', ''-r'',
                        number_to_string (other_number_text e) TARGET_VOICE_TO_TEXT_BITRATE,
                        outPath]],
      kills = 0\<rparr>"

text \<open>
  What can happen afterwards: the capture process writes to its standard error, the
  process closes with an exit code (\<open>null\<close>, here \<open>None\<close>, when a signal ended it), or the
  caller calls \<open>fStop\<close>. Each runs the listener the source registers for it.
\<close>

datatype mic_event = StderrData string | Close "int option" | FStop

definition code_text :: "int option \<Rightarrow> string" where
  "code_text code = (case code of None \<Rightarrow> ''null'' | Some i \<Rightarrow> int_to_string i)"

fun mic_listener :: "string \<Rightarrow> recording \<Rightarrow> mic_event \<Rightarrow> recording" where
  "mic_listener outPath st (StderrData data) = st\<lparr>console := console st @ [data]\<rparr>"
| "mic_listener outPath st (Close code) =
     st\<lparr>console := console st @ [''mic exited with code '' @ code_text code],
        completedPathPromise := pathResolve (completedPathPromise st) outPath\<rparr>"
| "mic_listener outPath st FStop = st\<lparr>kills := kills st + 1\<rparr>"

definition recording_after :: "env \<Rightarrow> string \<Rightarrow> mic_event list \<Rightarrow> recording" where
  "recording_after e outPath evs = foldl (mic_listener outPath) (recordMicrophone e outPath) evs"

fun is_Close :: "mic_event \<Rightarrow> bool" where
  "is_Close (Close code) = True"
| "is_Close (StderrData data) = False"
| "is_Close FStop = False"

section \<open>Reading a trace\<close>

text \<open>The settings of the chunk that starts at \<open>startS\<close> (lines 148 to 154).\<close>

definition chunk_settings :: "number \<Rightarrow> number \<Rightarrow> number \<Rightarrow> number \<Rightarrow> AudioSegmentSettings" where
  "chunk_settings chunkSecs speed dur startS =
     \<lparr>startSecs = startS, endSecs = js_min (js_add startS chunkSecs) dur, toMono = Some True,
      bitrateConversion = Some TARGET_VOICE_TO_TEXT_BITRATE, playbackSpeed = Some speed\<rparr>"

fun ev_error :: "event \<Rightarrow> error option" where
  "ev_error (EvProbe p r) = r"
| "ev_error (EvRun cmd r) = r"
| "ev_error (EvProcess p t r) = r"

definition ev_ok :: "event \<Rightarrow> bool" where
  "ev_ok ev = (ev_error ev = None)"

text \<open>
  The events of a run that resolved all succeeded; in a run that rejected, the last event
  is the one that failed, with the error the run rejects with, and all before it succeeded.
\<close>

definition stops_at_failure :: "error + unit \<Rightarrow> event list \<Rightarrow> bool" where
  "stops_at_failure out evs =
     (case out of
        Inr u \<Rightarrow> list_all ev_ok evs
      | Inl err \<Rightarrow> evs \<noteq> [] \<and> list_all ev_ok (butlast evs) \<and> ev_error (last evs) = Some err)"

text \<open>The calls of \<open>fProcess\<close>: path and \<open>isTemporary\<close>.\<close>

fun process_calls :: "event list \<Rightarrow> (string \<times> bool) list" where
  "process_calls [] = []"
| "process_calls (EvProcess p t r # evs) = (p, t) # process_calls evs"
| "process_calls (ev # evs) = process_calls evs"

text \<open>The \<open>ffmpeg\<close> commands that were run.\<close>

fun run_cmds :: "event list \<Rightarrow> ffcall list list" where
  "run_cmds [] = []"
| "run_cmds (EvRun cmd r # evs) = cmd # run_cmds evs"
| "run_cmds (ev # evs) = run_cmds evs"

fun audio_filters :: "ffcall list \<Rightarrow> string list" where
  "audio_filters [] = []"
| "audio_filters (AudioFilters f # cs) = f # audio_filters cs"
| "audio_filters (c # cs) = audio_filters cs"

fun audio_bitrates :: "ffcall list \<Rightarrow> number list" where
  "audio_bitrates [] = []"
| "audio_bitrates (AudioBitrate b # cs) = b # audio_bitrates cs"
| "audio_bitrates (c # cs) = audio_bitrates cs"

fun cmd_outputs :: "ffcall list \<Rightarrow> string list" where
  "cmd_outputs [] = []"
| "cmd_outputs (Output p # cs) = p # cmd_outputs cs"
| "cmd_outputs (c # cs) = cmd_outputs cs"

text \<open>Start and end of the segment a command cuts: its start time, and that plus its duration.\<close>

fun cmd_starts :: "ffcall list \<Rightarrow> number list" where
  "cmd_starts [] = []"
| "cmd_starts (SetStartTime a # cs) = a # cmd_starts cs"
| "cmd_starts (c # cs) = cmd_starts cs"

fun cmd_durations :: "ffcall list \<Rightarrow> number list" where
  "cmd_durations [] = []"
| "cmd_durations (SetDuration a # cs) = a # cmd_durations cs"
| "cmd_durations (c # cs) = cmd_durations cs"

definition cmd_span :: "ffcall list \<Rightarrow> (number \<times> number) list" where
  "cmd_span cmd = map (\<lambda>(a, l). (a, js_add a l)) (zip (cmd_starts cmd) (cmd_durations cmd))"

definition chunks :: "event list \<Rightarrow> (number \<times> number) list" where
  "chunks tr = concat (map cmd_span (run_cmds tr))"

text \<open>The files written by the commands that ran to their end.\<close>

fun produced_files :: "event list \<Rightarrow> string list" where
  "produced_files [] = []"
| "produced_files (EvRun cmd None # evs) = cmd_outputs cmd @ produced_files evs"
| "produced_files (ev # evs) = produced_files evs"

section \<open>Sample worlds\<close>

text \<open>A world where every call succeeds and the file lasts \<open>d\<close> seconds.\<close>

definition probe_ok :: "rat \<Rightarrow> event list \<Rightarrow> string \<Rightarrow> error + ffprobe_format" where
  "probe_ok d tr path = Inr \<lparr>format_duration = Some (Fin d), format_bit_rate = Some (Fin 128000)\<rparr>"

definition quiet_env :: "rat \<Rightarrow> env" where
  "quiet_env d = \<lparr>ffprobe = probe_ok d, ffmpeg_run = (\<lambda>tr cmd. None),
                  other_number_text = (\<lambda>q. if q = 1 / 2 then ''0.5'' else ''?'')\<rparr>"

definition ok_handler :: handler where
  "ok_handler tr p t = None"

text \<open>A world where the file cannot be probed.\<close>

definition missing_env :: env where
  "missing_env = \<lparr>ffprobe = (\<lambda>tr path. Inl (Err ''ENOENT'')), ffmpeg_run = (\<lambda>tr cmd. None),
                  other_number_text = (\<lambda>q. ''?'')\<rparr>"

text \<open>A world where the command run after \<open>k\<close> events fails, and a handler that does.\<close>

definition full_disk_env :: "rat \<Rightarrow> nat \<Rightarrow> env" where
  "full_disk_env d k =
     \<lparr>ffprobe = probe_ok d,
      ffmpeg_run = (\<lambda>tr cmd. if length tr = k then Some (Err ''ENOSPC'') else None),
      other_number_text = (\<lambda>q. ''?'')\<rparr>"

definition failing_handler :: "nat \<Rightarrow> handler" where
  "failing_handler k tr p t = (if length tr = k then Some (Err ''handler failed'') else None)"

definition sample_settings :: "number option \<Rightarrow> number option \<Rightarrow> AudioSegmentSettings" where
  "sample_settings bitrate speed =
     \<lparr>startSecs = Fin 270, endSecs = Fin 570, toMono = None, bitrateConversion = bitrate,
      playbackSpeed = speed\<rparr>"

section \<open>Rounding\<close>

lemma log2_up_lower: "1 \<le> x \<Longrightarrow> power_int 2 (log2_up x) \<le> x"
proof (induction x rule: log2_up.induct)
  case (1 x)
  show ?case
  proof (cases "x < 2")
    case True
    with 1(2) show ?thesis by (simp add: log2_up.simps[of x])
  next
    case False
    then have "1 \<le> x / 2" by simp
    from 1(1)[OF False this] have "power_int 2 (log2_up (x / 2)) * 2 \<le> x" by simp
    moreover have "power_int (2::rat) (log2_up (x / 2) + 1) = power_int 2 (log2_up (x / 2)) * 2"
      by (simp add: power_int_add)
    ultimately show ?thesis using False by (simp add: log2_up.simps[of x])
  qed
qed

lemma log2_down_lower: "0 < x \<Longrightarrow> x < 1 \<Longrightarrow> power_int 2 (log2_down x) \<le> x"
proof (induction x rule: log2_down.induct)
  case (1 x)
  have step: "power_int (2::rat) (k - 1) = power_int 2 k / 2" for k :: int
    by (simp add: power_int_diff)
  show ?case
  proof (cases "x * 2 < 1")
    case True
    from 1(1)[OF _ _ True] 1(2,3) have "power_int 2 (log2_down (x * 2)) \<le> x * 2" by simp
    with 1(2,3) show ?thesis by (simp add: log2_down.simps[of x] step)
  next
    case False
    then have "log2_down (x * 2) = 0" by (simp add: log2_down.simps[of "x * 2"])
    with 1(2,3) False show ?thesis by (simp add: log2_down.simps[of x] step)
  qed
qed

lemma exponent_lower: "x \<noteq> 0 \<Longrightarrow> power_int 2 (exponent x) \<le> \<bar>x\<bar>"
  by (simp add: exponent_def log2_up_lower log2_down_lower)

lemma log2_up_upper: "x < 2 ^ Suc k \<Longrightarrow> log2_up x \<le> int k"
proof (induction k arbitrary: x)
  case 0
  then show ?case by (simp add: log2_up.simps[of x])
next
  case (Suc k)
  show ?case
  proof (cases "x < 2")
    case True
    then show ?thesis by (simp add: log2_up.simps[of x])
  next
    case False
    from Suc.prems have "x / 2 < 2 ^ Suc k" by simp
    from Suc.IH[OF this] False show ?thesis by (simp add: log2_up.simps[of x])
  qed
qed

lemma log2_down_le_0: "log2_down x \<le> 0"
proof (induction x rule: log2_down.induct)
  case (1 x)
  show ?case
  proof (cases "x \<le> 0 \<or> 1 \<le> x")
    case True
    then show ?thesis by (simp add: log2_down.simps[of x])
  next
    case False
    from 1[OF False] have "log2_down (x * 2) - 1 \<le> 0" by simp
    with False show ?thesis by (simp add: log2_down.simps[of x])
  qed
qed

lemma exponent_upper: "\<bar>x\<bar> < 2 ^ Suc k \<Longrightarrow> exponent x \<le> int k"
  using log2_down_le_0[of "\<bar>x\<bar>"] by (simp add: exponent_def log2_up_upper)

lemma round_half_even_error: "\<bar>of_int (round_half_even y) - y\<bar> \<le> 1 / 2"
proof -
  define f where "f = \<lfloor>y\<rfloor>"
  have bounds: "of_int f \<le> y" "y < of_int f + 1" unfolding f_def by linarith+
  have r: "round_half_even y =
             (if y - of_int f < 1 / 2 then f else if 1 / 2 < y - of_int f then f + 1
              else if even f then f else f + 1)"
    by (simp add: round_half_even_def f_def)
  show ?thesis
  proof (cases "y - of_int f < 1 / 2")
    case True
    with r bounds show ?thesis by simp
  next
    case False
    note nlt = this
    show ?thesis
    proof (cases "1 / 2 < y - of_int f")
      case True
      with r nlt bounds show ?thesis by simp
    next
      case False
      with nlt have "y - of_int f = 1 / 2" by simp
      then have "y = of_int f + 1 / 2" by simp
      with r show ?thesis by simp
    qed
  qed
qed

lemma round_half_even_of_int: "round_half_even (of_int j) = j"
  by (simp add: round_half_even_def)

lemma scaled_round_error:
  assumes "0 < u"
  shows "\<bar>of_int (round_half_even (x / u)) * u - x\<bar> \<le> u / 2"
proof -
  have "of_int (round_half_even (x / u)) * u - x = (of_int (round_half_even (x / u)) - x / u) * u"
    using assms by (simp add: left_diff_distrib)
  then have "\<bar>of_int (round_half_even (x / u)) * u - x\<bar>
               = \<bar>of_int (round_half_even (x / u)) - x / u\<bar> * u"
    using assms by (simp only: abs_mult abs_of_pos)
  also have "\<dots> \<le> 1 / 2 * u"
    using round_half_even_error[of "x / u"] assms by (intro mult_right_mono) simp_all
  finally show ?thesis by simp
qed

lemma min_double_pos: "0 < min_double"
  by (simp add: min_double_def)

lemma double_ulp_pos: "0 < double_ulp x"
  by (simp add: double_ulp_def)

lemma double_ulp_ge_min: "min_double \<le> double_ulp x"
  unfolding double_ulp_def min_double_def by (rule power_int_increasing) simp_all

lemma double_ulp_le:
  assumes "x \<noteq> 0"
  shows "double_ulp x \<le> max (\<bar>x\<bar> / 2 ^ 52) min_double"
proof (cases "- 1022 \<le> exponent x")
  case True
  then have "double_ulp x = power_int 2 (exponent x - 52)" by (simp add: double_ulp_def max_def)
  also have "\<dots> = power_int 2 (exponent x) / 2 ^ 52" by (simp add: power_int_diff)
  also have "\<dots> \<le> \<bar>x\<bar> / 2 ^ 52" using exponent_lower[OF assms] by (simp add: divide_right_mono)
  finally show ?thesis by simp
next
  case False
  then have "max (exponent x) (- 1022) - 52 = - 1074" by simp
  then have "double_ulp x = min_double" by (simp only: double_ulp_def min_double_def)
  then show ?thesis by simp
qed

lemma round_double_not_NaN: "round_double x \<noteq> NaN"
  by (simp add: round_double_def Let_def)

lemma round_double_Fin:
  assumes "round_double x = Fin v"
  shows "v = of_int (round_half_even (x / double_ulp x)) * double_ulp x"
    and "\<bar>v - x\<bar> \<le> double_ulp x / 2"
proof -
  show v: "v = of_int (round_half_even (x / double_ulp x)) * double_ulp x"
    using assms by (simp add: round_double_def Let_def split: if_splits)
  show "\<bar>v - x\<bar> \<le> double_ulp x / 2"
    unfolding v by (rule scaled_round_error) (rule double_ulp_pos)
qed

lemma round_double_cases_pos:
  assumes "0 < of_int (round_half_even (x / double_ulp x)) * double_ulp x"
  shows "round_double x = PInf
         \<or> round_double x = Fin (of_int (round_half_even (x / double_ulp x)) * double_ulp x)"
  using assms by (simp add: round_double_def Let_def)

text \<open>A positive result of rounding is at least the smallest positive double.\<close>

lemma round_double_pos_ge_min:
  assumes "round_double x = Fin v" and "0 < v"
  shows "min_double \<le> v"
proof -
  define r where "r = round_half_even (x / double_ulp x)"
  from round_double_Fin(1)[OF assms(1)] have v: "v = of_int r * double_ulp x" by (simp add: r_def)
  with assms(2) double_ulp_pos[of x] have "0 < (of_int r :: rat)" by (simp add: zero_less_mult_iff)
  then have "1 \<le> (of_int r :: rat)" by (simp add: int_one_le_iff_zero_less)
  then have "1 * double_ulp x \<le> of_int r * double_ulp x"
    using double_ulp_pos[of x] by (intro mult_right_mono) simp_all
  with double_ulp_ge_min[of x] v show ?thesis by simp
qed

text \<open>
  Rounding a value that is at least the smallest positive double loses at most one part in
  \<open>2^53\<close> of it, or half the smallest positive double if that is more.
\<close>

lemma round_double_lower:
  assumes "min_double \<le> x"
  shows "round_double x = PInf
         \<or> (\<exists>v. round_double x = Fin v \<and> x - max (x / 2 ^ 53) (min_double / 2) \<le> v)"
proof -
  have pos: "0 < x" using assms min_double_pos by linarith
  define v where "v = of_int (round_half_even (x / double_ulp x)) * double_ulp x"
  have err: "\<bar>v - x\<bar> \<le> double_ulp x / 2"
    unfolding v_def by (rule scaled_round_error) (rule double_ulp_pos)
  have u: "double_ulp x \<le> max (x / 2 ^ 52) min_double"
    using double_ulp_le[of x] pos by simp
  have half: "max (x / 2 ^ 52) min_double / 2 = max (x / 2 ^ 53) (min_double / 2)"
    by (simp add: max_def)
  from err have "x - double_ulp x / 2 \<le> v" by (simp only: abs_le_iff) linarith
  moreover define M where "M = max (x / 2 ^ 52) min_double"
  ultimately have "x - M / 2 \<le> v" using u by simp
  then have low: "x - max (x / 2 ^ 52) min_double / 2 \<le> v" by (simp only: M_def)
  have "x / 2 ^ 52 \<le> x" using pos by (simp add: field_simps)
  with assms have "max (x / 2 ^ 52) min_double \<le> x" by simp
  with low pos have "0 < v" by simp
  from round_double_cases_pos[of x] this low half show ?thesis by (auto simp add: v_def)
qed

text \<open>Every double is a whole multiple of the smallest positive double.\<close>

lemma is_double_grid:
  assumes "is_double x"
  shows "\<exists>k :: int. x = of_int k * min_double"
proof -
  define e where "e = max (exponent x) (- 1022) - 52"
  define r where "r = round_half_even (x / double_ulp x)"
  have e: "0 \<le> e + 1074" by (simp add: e_def)
  from assms have x: "x = of_int r * double_ulp x"
    using round_double_Fin(1)[of x x] by (simp add: is_double_def r_def)
  have "double_ulp x = power_int 2 ((e + 1074) + (- 1074))" by (simp add: double_ulp_def e_def)
  also have "\<dots> = power_int 2 (e + 1074) * power_int 2 (- 1074)"
    by (rule power_int_add) simp
  also have "power_int (2::rat) (e + 1074) = 2 ^ nat (e + 1074)"
    using e by (simp only: power_int_def if_True)
  finally have u: "double_ulp x = of_int (2 ^ nat (e + 1074)) * min_double"
    by (simp only: min_double_def of_int_power of_int_numeral)
  have "x = of_int (r * 2 ^ nat (e + 1074)) * min_double"
    by (subst x, subst u) (simp only: of_int_mult mult.assoc)
  then show ?thesis by blast
qed

lemma double_difference:
  assumes "is_double c" and "is_double o'" and "o' < c"
  shows "min_double \<le> c - o'"
proof -
  from is_double_grid[OF assms(1)] obtain k where k: "c = of_int k * min_double" by blast
  from is_double_grid[OF assms(2)] obtain l where l: "o' = of_int l * min_double" by blast
  from assms(3) have "of_int l * min_double < (of_int k :: rat) * min_double"
    by (simp only: k l)
  with min_double_pos have "(of_int l :: rat) < of_int k" by (simp only: mult_less_cancel_right_pos)
  then have "(1 :: rat) \<le> of_int (k - l)" by simp
  then have "1 * min_double \<le> of_int (k - l) * min_double"
    using min_double_pos by (intro mult_right_mono) simp_all
  then show ?thesis by (simp add: k l left_diff_distrib)
qed

lemma floor_rat_numeral_div:
  "\<lfloor>numeral a / numeral b :: rat\<rfloor> = numeral a div numeral b"
  by (metis floor_divide_of_int_eq of_int_numeral)

text \<open>Small integers are doubles.\<close>

lemma round_double_int:
  assumes "\<bar>n\<bar> < 2 ^ 53"
  shows "round_double (of_int n) = Fin (of_int n)"
proof -
  have small: "\<bar>of_int n :: rat\<bar> < 2 ^ Suc 52"
  proof -
    from assms have "(of_int \<bar>n\<bar> :: rat) < of_int (2 ^ 53)" by (simp only: of_int_less_iff)
    then show ?thesis by simp
  qed
  from exponent_upper[OF small] have e: "exponent (of_int n) \<le> 52" by simp
  define k where "k = nat (52 - max (exponent (of_int n :: rat)) (- 1022))"
  have "max (exponent (of_int n :: rat)) (- 1022) - 52 = - int k"
    using e by (simp add: k_def)
  then have "double_ulp (of_int n) = power_int 2 (- int k)"
    by (simp only: double_ulp_def)
  then have u: "double_ulp (of_int n) = 1 / 2 ^ k"
    by (simp add: power_int_minus_divide)
  have "of_int n / double_ulp (of_int n) = (of_int (n * 2 ^ k) :: rat)" by (simp add: u)
  then have "round_half_even (of_int n / double_ulp (of_int n)) = n * 2 ^ k"
    by (simp only: round_half_even_of_int)
  then have "of_int (round_half_even (of_int n / double_ulp (of_int n))) * double_ulp (of_int n)
               = (of_int n :: rat)"
    by (simp add: u)
  with e show ?thesis by (simp add: round_double_def Let_def)
qed

lemma round_double_numeral:
  "numeral n < (2 ^ 53 :: int) \<Longrightarrow> round_double (numeral n) = Fin (numeral n)"
  "numeral n < (2 ^ 53 :: int) \<Longrightarrow> round_double (- numeral n) = Fin (- numeral n)"
  "round_double 0 = Fin 0"
  "round_double 1 = Fin 1"
  using round_double_int[of "numeral n"] round_double_int[of "- numeral n"]
        round_double_int[of 0] round_double_int[of 1]
  by simp_all

section \<open>Segment extraction\<close>

lemma audio_filters_append: "audio_filters (xs @ ys) = audio_filters xs @ audio_filters ys"
  by (induction xs rule: audio_filters.induct) simp_all

lemma audio_bitrates_append: "audio_bitrates (xs @ ys) = audio_bitrates xs @ audio_bitrates ys"
  by (induction xs rule: audio_bitrates.induct) simp_all

lemma cmd_outputs_append: "cmd_outputs (xs @ ys) = cmd_outputs xs @ cmd_outputs ys"
  by (induction xs rule: cmd_outputs.induct) simp_all

lemma effective_cases:
  "effective_playbackSpeed s =
     (case playbackSpeed s of
        None \<Rightarrow> Fin 1
      | Some NaN \<Rightarrow> Fin 1
      | Some PInf \<Rightarrow> Fin 2
      | Some NInf \<Rightarrow> Fin (1 / 2)
      | Some (Fin q) \<Rightarrow> if q = 0 then Fin 1 else if q < 1 / 2 then Fin (1 / 2)
                        else if 2 < q then Fin 2 else Fin q)"
  by (simp add: effective_playbackSpeed_def js_gt_def split: option.splits number.splits)

lemma effective_not_NaN: "effective_playbackSpeed s \<noteq> NaN"
  by (simp add: effective_cases split: option.splits number.splits)

lemma segment_filters:
  "audio_filters (segment_cmd e path s) =
     (if effective_playbackSpeed s = Fin 1 then []
      else [''atempo='' @ number_to_string (other_number_text e) (effective_playbackSpeed s)])"
  by (simp add: segment_cmd_def audio_filters_append js_ne_def effective_not_NaN)

lemma segment_bitrates:
  "audio_bitrates (segment_cmd e path s) =
     (if truthy_number (bitrateConversion s) then [the (bitrateConversion s)] else [])"
  by (simp add: segment_cmd_def audio_bitrates_append)

lemma segment_outputs: "cmd_outputs (segment_cmd e path s) = [segment_newPath e path s]"
  by (simp add: segment_cmd_def cmd_outputs_append)

lemma segment_trace:
  "snd (getAudioFileSegment e path s tr) =
     tr @ [EvRun (segment_cmd e path s) (ffmpeg_run e tr (segment_cmd e path s))]"
  by (simp add: getAudioFileSegment_def Let_def split: option.splits)

lemma segment_result:
  "fst (getAudioFileSegment e path s tr) =
     (case ffmpeg_run e tr (segment_cmd e path s) of
        None \<Rightarrow> Inr (segment_newPath e path s) | Some err \<Rightarrow> Inl err)"
  by (simp add: getAudioFileSegment_def Let_def split: option.splits)

text \<open>
  C5, as stated, fails at a playback speed of \<open>0\<close>: the value is below \<open>0.5\<close>, and the
  speed that is used is \<open>1\<close>, not \<open>0.5\<close>.
\<close>

theorem C5_speed_zero_counterexample:
  "js_lt (Fin 0) (Fin (1 / 2))
   \<and> effective_playbackSpeed (sample_settings None (Some (Fin 0))) = Fin 1
   \<and> effective_playbackSpeed (sample_settings None (Some (Fin 0))) \<noteq> Fin (1 / 2)"
  by (simp add: sample_settings_def effective_playbackSpeed_def)

text \<open>
  C5, amended. The effective playback speed is always between \<open>0.5\<close> and \<open>2\<close>: an unset
  speed gives \<open>1\<close>, and so do \<open>0\<close> and \<open>NaN\<close>; any other value below \<open>0.5\<close> gives \<open>0.5\<close>, a
  value above \<open>2\<close> gives \<open>2\<close>, a value in range is kept. No value makes the call fail: if
  the command runs to its end, the call resolves to the output path.
\<close>

theorem C5_effective_speed_clamped:
  "js_le (Fin (1 / 2)) (effective_playbackSpeed s) \<and> js_le (effective_playbackSpeed s) (Fin 2)
   \<and> (playbackSpeed s = None \<longrightarrow> effective_playbackSpeed s = Fin 1)
   \<and> (playbackSpeed s = Some (Fin 0) \<longrightarrow> effective_playbackSpeed s = Fin 1)
   \<and> (playbackSpeed s = Some NaN \<longrightarrow> effective_playbackSpeed s = Fin 1)
   \<and> (playbackSpeed s = Some v \<and> v \<noteq> Fin 0 \<and> js_lt v (Fin (1 / 2))
        \<longrightarrow> effective_playbackSpeed s = Fin (1 / 2))
   \<and> (playbackSpeed s = Some v \<and> js_gt v (Fin 2) \<longrightarrow> effective_playbackSpeed s = Fin 2)
   \<and> (playbackSpeed s = Some v \<and> v \<noteq> Fin 0 \<and> js_le (Fin (1 / 2)) v \<and> js_le v (Fin 2)
        \<longrightarrow> effective_playbackSpeed s = v)
   \<and> (ffmpeg_run e tr (segment_cmd e path s) = None
        \<longrightarrow> fst (getAudioFileSegment e path s tr) = Inr (segment_newPath e path s))"
  by (cases v)
     (auto simp add: effective_cases js_gt_def segment_result split: option.splits number.splits)

theorem C5_effective_speed_clamped_witness:
  "effective_playbackSpeed (sample_settings None None) = Fin 1
   \<and> effective_playbackSpeed (sample_settings None (Some (Fin (1 / 4)))) = Fin (1 / 2)
   \<and> effective_playbackSpeed (sample_settings None (Some (Fin (- 3)))) = Fin (1 / 2)
   \<and> effective_playbackSpeed (sample_settings None (Some (Fin 3))) = Fin 2
   \<and> effective_playbackSpeed (sample_settings None (Some PInf)) = Fin 2
   \<and> effective_playbackSpeed (sample_settings None (Some (Fin (3 / 2)))) = Fin (3 / 2)
   \<and> fst (getAudioFileSegment (quiet_env 600) ''a.mp3'' (sample_settings None (Some (Fin 3))) [])
       = Inr ''a.mp3.segment-270-570.mp3''"
  using C5_effective_speed_clamped [where s = "sample_settings None None"]
        C5_effective_speed_clamped [where s = "sample_settings None (Some (Fin (1 / 4)))"
                                      and v = "Fin (1 / 4)"]
        C5_effective_speed_clamped [where s = "sample_settings None (Some (Fin (- 3)))"
                                      and v = "Fin (- 3)"]
        C5_effective_speed_clamped [where s = "sample_settings None (Some (Fin 3))" and v = "Fin 3"
                                      and e = "quiet_env 600" and path = "''a.mp3''" and tr = "[]"]
        C5_effective_speed_clamped [where s = "sample_settings None (Some PInf)" and v = PInf]
        C5_effective_speed_clamped [where s = "sample_settings None (Some (Fin (3 / 2)))"
                                      and v = "Fin (3 / 2)"]
  by (simp add: sample_settings_def js_gt_def segment_result segment_newPath_def quiet_env_def
        number_to_string_def int_to_string_def digits.simps)

text \<open>
  C6. For every call of \<open>getAudioFileSegment\<close>, the command that is run is the one built
  from the settings; when the effective playback speed is exactly \<open>1\<close> it has no audio
  filter at all, and when the speed differs from \<open>1\<close> it has the one filter
  \<open>atempo=<speed>\<close>.
\<close>

theorem C6_tempo_filter:
  "snd (getAudioFileSegment e path s tr) =
     tr @ [EvRun (segment_cmd e path s) (ffmpeg_run e tr (segment_cmd e path s))]
   \<and> (effective_playbackSpeed s = Fin 1 \<longrightarrow> audio_filters (segment_cmd e path s) = [])
   \<and> (effective_playbackSpeed s \<noteq> Fin 1 \<longrightarrow>
        audio_filters (segment_cmd e path s) =
          [''atempo='' @ number_to_string (other_number_text e) (effective_playbackSpeed s)])"
  by (simp add: segment_trace segment_filters)

theorem C6_tempo_filter_witness:
  "audio_filters (segment_cmd (quiet_env 600) ''a.mp3'' (sample_settings None (Some (Fin 1)))) = []
   \<and> audio_filters (segment_cmd (quiet_env 600) ''a.mp3'' (sample_settings None None)) = []
   \<and> audio_filters (segment_cmd (quiet_env 600) ''a.mp3'' (sample_settings None (Some (Fin 3))))
       = [''atempo=2'']
   \<and> audio_filters (segment_cmd (quiet_env 600) ''a.mp3'' (sample_settings None (Some (Fin (1 / 4)))))
       = [''atempo=0.5'']"
proof -
  have one: "effective_playbackSpeed (sample_settings None (Some (Fin 1))) = Fin 1"
    and unset: "effective_playbackSpeed (sample_settings None None) = Fin 1"
    and fast: "effective_playbackSpeed (sample_settings None (Some (Fin 3))) \<noteq> Fin 1"
    and slow: "effective_playbackSpeed (sample_settings None (Some (Fin (1 / 4)))) \<noteq> Fin 1"
    by code_simp+
  have fast_text: "number_to_string (other_number_text (quiet_env 600))
                     (effective_playbackSpeed (sample_settings None (Some (Fin 3)))) = ''2''"
    and slow_text: "number_to_string (other_number_text (quiet_env 600))
                     (effective_playbackSpeed (sample_settings None (Some (Fin (1 / 4))))) = ''0.5''"
    by code_simp+
  from C6_tempo_filter [where e = "quiet_env 600" and path = "''a.mp3''" and tr = "[]"
                          and s = "sample_settings None (Some (Fin 1))"]
       C6_tempo_filter [where e = "quiet_env 600" and path = "''a.mp3''" and tr = "[]"
                          and s = "sample_settings None None"]
       C6_tempo_filter [where e = "quiet_env 600" and path = "''a.mp3''" and tr = "[]"
                          and s = "sample_settings None (Some (Fin 3))"]
       C6_tempo_filter [where e = "quiet_env 600" and path = "''a.mp3''" and tr = "[]"
                          and s = "sample_settings None (Some (Fin (1 / 4)))"]
       one unset fast slow fast_text slow_text
  show ?thesis by simp
qed

text \<open>
  C7. The output path of \<open>getAudioFileSegment\<close> is the input path followed by
  \<open>.segment-<startSecs>-<endSecs>.mp3\<close>, with both numbers rendered by the ordinary
  conversion of a number to a string. It depends on nothing but the input path and the two
  bounds: other settings, the trace so far and the answers of the outside world do not
  change it. It is the output of the command and the value the call resolves to.
\<close>

theorem C7_output_path:
  "segment_newPath e path s =
     path @ ''.segment-'' @ number_to_string (other_number_text e) (startSecs s)
          @ ''-'' @ number_to_string (other_number_text e) (endSecs s) @ ''.mp3''
   \<and> (startSecs s' = startSecs s \<and> endSecs s' = endSecs s
        \<and> other_number_text e' = other_number_text e
        \<longrightarrow> segment_newPath e' path s' = segment_newPath e path s)
   \<and> cmd_outputs (segment_cmd e path s) = [segment_newPath e path s]
   \<and> (fst (getAudioFileSegment e path s tr) = Inr p \<longrightarrow> p = segment_newPath e path s)"
  by (auto simp add: segment_newPath_def segment_outputs segment_result split: option.splits)

theorem C7_output_path_witness:
  "segment_newPath (quiet_env 600) ''talk.m4a'' (sample_settings None None)
     = ''talk.m4a.segment-270-570.mp3''
   \<and> segment_newPath (full_disk_env 9 0) ''talk.m4a''
        (sample_settings (Some (Fin 22050)) (Some (Fin 2)))
     = ''talk.m4a.segment-270-570.mp3''
   \<and> fst (getAudioFileSegment (quiet_env 600) ''talk.m4a'' (sample_settings None None) [])
     = Inr ''talk.m4a.segment-270-570.mp3''"
  using C7_output_path [where e = "quiet_env 600" and path = "''talk.m4a''"
                          and s = "sample_settings None None" and tr = "[]"
                          and e' = "full_disk_env 9 0"
                          and s' = "sample_settings (Some (Fin 22050)) (Some (Fin 2))"
                          and p = "''talk.m4a.segment-270-570.mp3''"]
  by (simp add: sample_settings_def segment_newPath_def quiet_env_def full_disk_env_def
        segment_result number_to_string_def int_to_string_def digits.simps)

text \<open>
  C10. A \<open>playbackSpeed\<close> of \<open>0\<close> or \<open>NaN\<close> is treated as unset: the effective speed is
  \<open>1\<close> (not \<open>0.5\<close>) and the command has no tempo filter. A \<open>bitrateConversion\<close> of \<open>0\<close> is
  treated as absent: the command sets no audio bitrate.
\<close>

theorem C10_falsy_settings:
  "effective_playbackSpeed (s\<lparr>playbackSpeed := Some (Fin 0)\<rparr>) = Fin 1
   \<and> effective_playbackSpeed (s\<lparr>playbackSpeed := Some NaN\<rparr>) = Fin 1
   \<and> audio_filters (segment_cmd e path (s\<lparr>playbackSpeed := Some (Fin 0)\<rparr>)) = []
   \<and> audio_filters (segment_cmd e path (s\<lparr>playbackSpeed := Some NaN\<rparr>)) = []
   \<and> audio_bitrates (segment_cmd e path (s\<lparr>bitrateConversion := Some (Fin 0)\<rparr>)) = []"
  by (simp add: segment_filters segment_bitrates effective_cases)

theorem C10_falsy_settings_witness:
  "effective_playbackSpeed (sample_settings None (Some (Fin 0))) = Fin 1
   \<and> audio_filters (segment_cmd (quiet_env 600) ''a.mp3'' (sample_settings None (Some NaN))) = []
   \<and> segment_cmd (quiet_env 600) ''a.mp3'' (sample_settings (Some (Fin 0)) (Some (Fin 0)))
       = [Input ''a.mp3'', SetStartTime (Fin 270), SetDuration (Fin 300), NoVideo,
          Output ''a.mp3.segment-270-570.mp3'']"
  using C10_falsy_settings [where s = "sample_settings None None" and e = "quiet_env 600"
                               and path = "''a.mp3''"]
  by (simp add: sample_settings_def segment_cmd_def effective_playbackSpeed_def js_ne_def js_sub_def
        segment_newPath_def quiet_env_def number_to_string_def int_to_string_def digits.simps
        round_double_numeral)

section \<open>Microphone recording\<close>

lemma foldl_promise_cases:
  "completedPathPromise st = Pending \<or> completedPathPromise st = Resolved outPath \<Longrightarrow>
   completedPathPromise (foldl (mic_listener outPath) st evs) = Pending
   \<or> completedPathPromise (foldl (mic_listener outPath) st evs) = Resolved outPath"
proof (induction evs arbitrary: st)
  case Nil
  then show ?case by simp
next
  case (Cons ev evs)
  have "completedPathPromise (mic_listener outPath st ev) = Pending
        \<or> completedPathPromise (mic_listener outPath st ev) = Resolved outPath"
    using Cons.prems by (cases ev) (auto simp add: pathResolve_def)
  from Cons.IH[OF this] show ?case by simp
qed

lemma foldl_resolved_stays:
  "completedPathPromise st = Resolved outPath \<Longrightarrow>
   completedPathPromise (foldl (mic_listener outPath) st evs) = Resolved outPath"
proof (induction evs arbitrary: st)
  case Nil
  then show ?case by simp
next
  case (Cons ev evs)
  have "completedPathPromise (mic_listener outPath st ev) = Resolved outPath"
    using Cons.prems by (cases ev) (simp_all add: pathResolve_def)
  from Cons.IH[OF this] show ?case by simp
qed

lemma foldl_pending_without_close:
  "completedPathPromise st = Pending \<Longrightarrow> \<not> list_ex is_Close evs \<Longrightarrow>
   completedPathPromise (foldl (mic_listener outPath) st evs) = Pending"
proof (induction evs arbitrary: st)
  case Nil
  then show ?case by simp
next
  case (Cons ev evs)
  from Cons.prems have "completedPathPromise (mic_listener outPath st ev) = Pending"
    by (cases ev) simp_all
  moreover from Cons.prems have "\<not> list_ex is_Close evs" by simp
  ultimately show ?case using Cons.IH by simp
qed

lemma recording_after_cases:
  "completedPathPromise (recording_after e outPath evs) = Pending
   \<or> completedPathPromise (recording_after e outPath evs) = Resolved outPath"
  unfolding recording_after_def
  by (rule foldl_promise_cases) (simp add: recordMicrophone_def)

lemma close_resolves:
  "completedPathPromise (recording_after e outPath (pre @ [Close code])) = Resolved outPath"
  using recording_after_cases [of e outPath pre]
  by (auto simp add: recording_after_def pathResolve_def)

text \<open>
  C9. Whatever events follow a call of \<open>recordMicrophone\<close>, the promise it returns is
  never rejected. It is pending as long as the capture process has not closed, becomes
  resolved with \<open>outPath\<close> when the process closes, whatever the exit code, and stays so
  under every later event (a second resolution changes nothing). The exit code only goes
  to the console.
\<close>

theorem C9_recording_promise:
  "completedPathPromise (recording_after e outPath evs) \<noteq> Rejected err
   \<and> (\<not> list_ex is_Close pre \<longrightarrow>
        completedPathPromise (recording_after e outPath pre) = Pending)
   \<and> completedPathPromise (recording_after e outPath (pre @ [Close code])) = Resolved outPath
   \<and> completedPathPromise (recording_after e outPath (pre @ Close code # post)) = Resolved outPath
   \<and> console (recording_after e outPath (pre @ [Close code])) =
        console (recording_after e outPath pre) @ [''mic exited with code '' @ code_text code]"
proof -
  have "completedPathPromise (recording_after e outPath evs) \<noteq> Rejected err"
    using recording_after_cases [of e outPath evs] by auto
  moreover have "\<not> list_ex is_Close pre \<longrightarrow>
        completedPathPromise (recording_after e outPath pre) = Pending"
    unfolding recording_after_def
    by (auto intro: foldl_pending_without_close simp add: recordMicrophone_def)
  moreover have "completedPathPromise (recording_after e outPath (pre @ Close code # post)) = Resolved outPath"
  proof -
    have "recording_after e outPath (pre @ Close code # post)
          = foldl (mic_listener outPath) (recording_after e outPath (pre @ [Close code])) post"
      by (simp add: recording_after_def)
    then show ?thesis by (simp add: foldl_resolved_stays close_resolves)
  qed
  moreover have "console (recording_after e outPath (pre @ [Close code])) =
        console (recording_after e outPath pre) @ [''mic exited with code '' @ code_text code]"
    by (simp add: recording_after_def)
  ultimately show ?thesis using close_resolves by blast
qed

theorem C9_recording_promise_witness:
  "completedPathPromise (recording_after (quiet_env 600) ''out.mp3'' [StderrData ''In:0.00%'', FStop]) = Pending
   \<and> completedPathPromise
        (recording_after (quiet_env 600) ''out.mp3'' [StderrData ''In:0.00%'', FStop, Close (Some 1)])
       = Resolved ''out.mp3''
   \<and> completedPathPromise
        (recording_after (quiet_env 600) ''out.mp3''
           [StderrData ''In:0.00%'', FStop, Close None, FStop, Close (Some 0)])
       = Resolved ''out.mp3''
   \<and> console (recording_after (quiet_env 600) ''out.mp3'' [StderrData ''In:0.00%'', FStop, Close (Some 1)])
       = [''In:0.00%'', ''mic exited with code 1'']"
proof -
  have no_close: "\<not> list_ex is_Close [StderrData ''In:0.00%'', FStop]" by simp
  have before: "console (recording_after (quiet_env 600) ''out.mp3'' [StderrData ''In:0.00%'', FStop])
                  = [''In:0.00%'']"
    by (simp add: recording_after_def recordMicrophone_def)
  have shown: "code_text (Some 1) = ''1''" by code_simp
  from C9_recording_promise [where e = "quiet_env 600" and outPath = "''out.mp3''"
                               and pre = "[StderrData ''In:0.00%'', FStop]" and code = "Some 1"
                               and post = "[]"]
       C9_recording_promise [where e = "quiet_env 600" and outPath = "''out.mp3''"
                               and pre = "[StderrData ''In:0.00%'', FStop]" and code = "None"
                               and post = "[FStop, Close (Some 0)]"]
       no_close before shown
  show ?thesis by simp
qed

section \<open>Chunk processing\<close>

lemma process_calls_append: "process_calls (xs @ ys) = process_calls xs @ process_calls ys"
  by (induction xs rule: process_calls.induct) simp_all

lemma run_cmds_append: "run_cmds (xs @ ys) = run_cmds xs @ run_cmds ys"
  by (induction xs rule: run_cmds.induct) simp_all

lemma produced_files_append: "produced_files (xs @ ys) = produced_files xs @ produced_files ys"
  by (induction xs rule: produced_files.induct) simp_all

lemma chunk_loop_done:
  "\<not> js_lt startS dur \<Longrightarrow>
   chunk_loop e path chunkSecs overlapSecs speed fProcess dur startS tr = Some (Inr (), tr)"
  by (subst chunk_loop.simps) simp

lemma chunk_loop_step:
  assumes "js_lt startS dur"
  shows "chunk_loop e path chunkSecs overlapSecs speed fProcess dur startS tr =
    (let st = chunk_settings chunkSecs speed dur startS;
         cmd = segment_cmd e path st;
         p = segment_newPath e path st
     in case ffmpeg_run e tr cmd of
          Some err \<Rightarrow> Some (Inl err, tr @ [EvRun cmd (Some err)])
        | None \<Rightarrow>
            (case fProcess (tr @ [EvRun cmd None]) p True of
               Some err \<Rightarrow> Some (Inl err, tr @ [EvRun cmd None, EvProcess p True (Some err)])
             | None \<Rightarrow>
                 chunk_loop e path chunkSecs overlapSecs speed fProcess dur
                   (js_add startS (js_sub chunkSecs overlapSecs))
                   (tr @ [EvRun cmd None, EvProcess p True None])))"
  using assms
  by (subst chunk_loop.simps)
     (simp add: getAudioFileSegment_def chunk_settings_def Let_def split: option.splits)

lemma stops_at_failure_prepend:
  "list_all ev_ok evs1 \<Longrightarrow> stops_at_failure out evs2 \<Longrightarrow> stops_at_failure out (evs1 @ evs2)"
  by (auto simp add: stops_at_failure_def butlast_append split: sum.splits)

lemma chunk_loop_trace:
  assumes "chunk_loop e path chunkSecs overlapSecs speed fProcess dur startS tr = Some r"
  shows "\<exists>evs. snd r = tr @ evs \<and> stops_at_failure (fst r) evs"
proof (rule chunk_loop.raw_induct
         [where P = "\<lambda>e path chunkSecs overlapSecs speed fProcess dur startS tr r.
                       \<exists>evs. snd r = tr @ evs \<and> stops_at_failure (fst r) evs",
          OF _ assms], goal_cases)
  case (1 loop e path chunkSecs overlapSecs speed fProcess dur startS tr r)
  show ?case
  proof (cases "js_lt startS dur")
    case False
    with 1(2) have "r = (Inr (), tr)" by simp
    then show ?thesis by (simp add: stops_at_failure_def)
  next
    case True
    define st where "st = chunk_settings chunkSecs speed dur startS"
    define cmd where "cmd = segment_cmd e path st"
    define p where "p = segment_newPath e path st"
    show ?thesis
    proof (cases "ffmpeg_run e tr cmd")
      case (Some err)
      with True 1(2) have "r = (Inl err, tr @ [EvRun cmd (Some err)])"
        by (simp add: getAudioFileSegment_def chunk_settings_def Let_def cmd_def st_def)
      then show ?thesis by (simp add: stops_at_failure_def)
    next
      case None
      note run_ok = this
      show ?thesis
      proof (cases "fProcess (tr @ [EvRun cmd None]) p True")
        case (Some err)
        with True run_ok 1(2)
        have "r = (Inl err, tr @ [EvRun cmd None, EvProcess p True (Some err)])"
          by (simp add: getAudioFileSegment_def chunk_settings_def Let_def cmd_def st_def p_def)
        then show ?thesis by (simp add: stops_at_failure_def ev_ok_def)
      next
        case None
        with True run_ok 1(2)
        have "loop e path chunkSecs overlapSecs speed fProcess dur
                (js_add startS (js_sub chunkSecs overlapSecs))
                (tr @ [EvRun cmd None, EvProcess p True None]) = Some r"
          by (simp add: getAudioFileSegment_def chunk_settings_def Let_def cmd_def st_def p_def)
        from 1(1)[OF this] obtain evs where
          evs: "snd r = (tr @ [EvRun cmd None, EvProcess p True None]) @ evs"
               "stops_at_failure (fst r) evs"
          by blast
        have "list_all ev_ok [EvRun cmd None, EvProcess p True None]"
          by (simp add: ev_ok_def)
        from stops_at_failure_prepend[OF this evs(2)] evs(1)
        show ?thesis by auto
      qed
    qed
  qed
qed

text \<open>A loop whose start does not move, and whose calls all succeed, does not return.\<close>

lemma chunk_loop_stalls:
  assumes "js_lt S D" and "js_add S (js_sub C O') = S"
    and "\<And>tr cmd. ffmpeg_run e tr cmd = None"
    and "\<And>tr p t. fProcess tr p t = None"
  shows "chunk_loop e path C O' speed fProcess D S tr = None"
proof (rule ccontr)
  assume "chunk_loop e path C O' speed fProcess D S tr \<noteq> None"
  then obtain r where run: "chunk_loop e path C O' speed fProcess D S tr = Some r"
    by blast
  have "\<not> (e = e \<and> C = C \<and> O' = O' \<and> fProcess = fProcess \<and> D = D \<and> S = S)"
  proof (rule chunk_loop.raw_induct
           [where P = "\<lambda>e' path' C' O'' speed' f' D' S' tr' r'.
                   \<not> (e' = e \<and> C' = C \<and> O'' = O' \<and> f' = fProcess \<and> D' = D \<and> S' = S)",
            OF _ run], goal_cases)
    case (1 loop e' path' C' O'' speed' f' D' S' tr' r')
    show ?case
    proof
      assume "e' = e \<and> C' = C \<and> O'' = O' \<and> f' = fProcess \<and> D' = D \<and> S' = S"
      then have eqs: "e' = e" "C' = C" "O'' = O'" "f' = fProcess" "D' = D" "S' = S"
        by simp_all
      from 1(2) assms(1)
      have "loop e path' C O' speed' fProcess D S
          (tr' @ [EvRun (segment_cmd e path' (chunk_settings C speed' D S)) None,
                  EvProcess (segment_newPath e path' (chunk_settings C speed' D S)) True None])
          = Some r'"
        unfolding eqs
        by (simp add: getAudioFileSegment_def chunk_settings_def Let_def assms(2,3,4))
      from 1(1)[OF this] show False by simp
    qed
  qed
  then show False by simp
qed

text \<open>
  A loop whose step is a positive double returns when the duration is at most \<open>2^51\<close>
  steps: every addition then moves the start forward by at least half a step.
\<close>

lemma step_progress:
  assumes "min_double \<le> st" and "0 \<le> s" and "s < d" and "d \<le> 2 ^ 51 * st"
  shows "round_double (s + st) = PInf
         \<or> (\<exists>v. round_double (s + st) = Fin v \<and> s + st / 2 \<le> v)"
proof -
  have st: "0 < st" using assms(1) min_double_pos by linarith
  have "min_double \<le> s + st" using assms(1,2) by linarith
  from round_double_lower[OF this]
  consider "round_double (s + st) = PInf"
    | v where "round_double (s + st) = Fin v"
        "s + st - max ((s + st) / 2 ^ 53) (min_double / 2) \<le> v"
    by blast
  then show ?thesis
  proof cases
    case 1
    then show ?thesis by simp
  next
    case 2
    have "s + st \<le> 2 ^ 51 * st + st" using assms(3,4) by linarith
    also have "\<dots> \<le> 2 ^ 52 * st" using st by simp
    finally have "(s + st) / 2 ^ 53 \<le> 2 ^ 52 * st / 2 ^ 53" by (simp add: divide_right_mono)
    then have "(s + st) / 2 ^ 53 \<le> st / 2" by simp
    moreover have "min_double / 2 \<le> st / 2" using assms(1) by simp
    ultimately have "max ((s + st) / 2 ^ 53) (min_double / 2) \<le> st / 2"
      by (rule max.boundedI)
    with 2(2) have "s + st / 2 \<le> v" by linarith
    with 2(1) show ?thesis by simp
  qed
qed

lemma chunk_loop_terminates:
  assumes "js_sub C O' = Fin st" and "min_double \<le> st" and "d \<le> 2 ^ 51 * st" and "0 \<le> s"
  shows "\<exists>r. chunk_loop e path C O' speed fProcess (Fin d) (Fin s) tr = Some r"
  using assms(4)
proof (induction "nat \<lceil>(d - s) / (st / 2)\<rceil>" arbitrary: s tr rule: less_induct)
  case less
  have st: "0 < st" using assms(2) min_double_pos by linarith
  show ?case
  proof (cases "s < d")
    case False
    then show ?thesis by (simp add: chunk_loop_done)
  next
    case True
    have next_returns:
      "\<exists>r. chunk_loop e path C O' speed fProcess (Fin d) (js_add (Fin s) (js_sub C O')) tr' = Some r"
      for tr'
    proof -
      from step_progress[OF assms(2) less.prems True assms(3)]
      consider "round_double (s + st) = PInf"
        | v where "round_double (s + st) = Fin v" "s + st / 2 \<le> v"
        by blast
      then show ?thesis
      proof cases
        case 1
        then show ?thesis by (simp add: assms(1) chunk_loop_done)
      next
        case 2
        have v0: "0 \<le> v" using 2(2) less.prems st by linarith
        have "(d - v) / (st / 2) \<le> (d - s) / (st / 2) - 1"
        proof -
          have "d - v \<le> (d - s) - st / 2" using 2(2) by linarith
          then have "(d - v) / (st / 2) \<le> ((d - s) - st / 2) / (st / 2)"
            using st by (intro divide_right_mono) simp_all
          also have "\<dots> = (d - s) / (st / 2) - 1"
            using st by (simp add: diff_divide_distrib)
          finally show ?thesis .
        qed
        then have "\<lceil>(d - v) / (st / 2)\<rceil> \<le> \<lceil>(d - s) / (st / 2) - 1\<rceil>" by (rule ceiling_mono)
        moreover have "0 < (d - s) / (st / 2)" using True st by simp
        then have "0 < \<lceil>(d - s) / (st / 2)\<rceil>" by (simp only: less_ceiling_iff of_int_0)
        ultimately have "nat \<lceil>(d - v) / (st / 2)\<rceil> < nat \<lceil>(d - s) / (st / 2)\<rceil>" by simp
        from less.hyps[OF this v0, of tr'] 2(1) show ?thesis by (simp add: assms(1))
      qed
    qed
    from True have "js_lt (Fin s) (Fin d)" by simp
    from chunk_loop_step[OF this, of e path C O' speed fProcess tr] next_returns show ?thesis
      by (simp add: Let_def split: option.splits)
  qed
qed

text \<open>A loop whose step is infinite returns after its first iteration at the latest.\<close>

lemma chunk_loop_infinite_step:
  assumes "js_sub C O' = PInf"
  shows "\<exists>r. chunk_loop e path C O' speed fProcess dur (Fin s) tr = Some r"
proof (cases "js_lt (Fin s) dur")
  case False
  then show ?thesis by (simp add: chunk_loop_done)
next
  case True
  have "\<exists>r. chunk_loop e path C O' speed fProcess dur (js_add (Fin s) (js_sub C O')) tr' = Some r"
    for tr'
    by (simp add: assms chunk_loop_done)
  with chunk_loop_step[OF True, of e path C O' speed fProcess tr] show ?thesis
    by (simp add: Let_def split: option.splits)
qed

text \<open>The step of two doubles, the smaller subtracted from the larger.\<close>

lemma double_step:
  assumes "is_double c" and "is_double o'" and "o' < c"
  shows "js_sub (Fin c) (Fin o') = PInf
         \<or> (\<exists>st. js_sub (Fin c) (Fin o') = Fin st \<and> min_double \<le> st \<and> (c - o') / 2 \<le> st)"
proof -
  have m: "min_double \<le> c - o'" by (rule double_difference[OF assms])
  have pos: "0 < c - o'" using assms(3) by simp
  from round_double_lower[OF m]
  consider "round_double (c - o') = PInf"
    | st where "round_double (c - o') = Fin st"
        "c - o' - max ((c - o') / 2 ^ 53) (min_double / 2) \<le> st"
    by blast
  then show ?thesis
  proof cases
    case 1
    then show ?thesis by (simp add: js_sub_def)
  next
    case 2
    have "(c - o') / 2 ^ 53 \<le> (c - o') / 2" using pos by (simp add: field_simps)
    moreover have "min_double / 2 \<le> (c - o') / 2" using m by simp
    ultimately have "max ((c - o') / 2 ^ 53) (min_double / 2) \<le> (c - o') / 2"
      by (rule max.boundedI)
    then have "c - o' - (c - o') / 2 \<le> c - o' - max ((c - o') / 2 ^ 53) (min_double / 2)"
      by (rule diff_left_mono)
    then have "c - o' - (c - o') / 2 \<le> st" using 2(2) by (rule order_trans)
    moreover have "c - o' - (c - o') / 2 = (c - o') / 2" by (simp add: field_simps)
    ultimately have half: "(c - o') / 2 \<le> st" by (simp only:)
    from pos have "0 < (c - o') / 2" by simp
    then have "0 < st" using half by (rule less_le_trans)
    from round_double_pos_ge_min[OF 2(1) this] 2(1) half show ?thesis
      by (simp add: js_sub_def)
  qed
qed

lemma probe_ok_info:
  "getAudioFileInfo (quiet_env d) path tr =
     (Inr \<lparr>duration = Fin d, bit_rate = Fin 128000\<rparr>, tr @ [EvProbe path None])"
  by (simp add: getAudioFileInfo_def quiet_env_def probe_ok_def nullish_or_def)

lemma run_550:
  "processAudioFileInChunks (quiet_env 550) ''a.mp3'' (Fin 300) (Fin 30) (Fin 1) ok_handler [] =
     Some (Inr (),
       [EvProbe ''a.mp3'' None,
        EvRun [Input ''a.mp3'', SetStartTime (Fin 0), SetDuration (Fin 300), NoVideo,
               AudioChannels 1, AudioBitrate (Fin 22050), Output ''a.mp3.segment-0-300.mp3''] None,
        EvProcess ''a.mp3.segment-0-300.mp3'' True None,
        EvRun [Input ''a.mp3'', SetStartTime (Fin 270), SetDuration (Fin 280), NoVideo,
               AudioChannels 1, AudioBitrate (Fin 22050), Output ''a.mp3.segment-270-550.mp3''] None,
        EvProcess ''a.mp3.segment-270-550.mp3'' True None,
        EvRun [Input ''a.mp3'', SetStartTime (Fin 540), SetDuration (Fin 10), NoVideo,
               AudioChannels 1, AudioBitrate (Fin 22050), Output ''a.mp3.segment-540-550.mp3''] None,
        EvProcess ''a.mp3.segment-540-550.mp3'' True None])"
  by (simp add: processAudioFileInChunks_def getAudioFileInfo_def quiet_env_def full_disk_env_def
        probe_ok_def nullish_or_def chunk_loop.simps getAudioFileSegment_def ok_handler_def
        chunk_settings_def js_min_def js_sub_def segment_cmd_def segment_newPath_def
        effective_playbackSpeed_def js_ne_def js_gt_def TARGET_VOICE_TO_TEXT_BITRATE_def
        number_to_string_def int_to_string_def digits.simps Let_def round_double_numeral)

text \<open>
  C1 says that a file longer than \<open>chunkSecs + 2 * overlapSecs\<close> is handled in
  \<open>ceil((D - O) / (C - O))\<close> calls of the handler. For \<open>D = 550\<close>, \<open>C = 300\<close>, \<open>O = 30\<close> (so
  \<open>0 < O < C\<close> and \<open>D > C + 2 * O\<close>) and calls that all succeed, the run resolves after three
  calls of the handler, on the chunks \<open>0-300\<close>, \<open>270-550\<close> and \<open>540-550\<close>, while
  \<open>ceil((D - O) / (C - O))\<close> is \<open>2\<close>: the loop goes on while \<open>startSecs < D\<close> and cuts a last
  chunk that lies wholly inside the one before it.
\<close>

theorem C1_chunk_count_at_550:
  "js_lt (Fin 0) (Fin 30) \<and> js_lt (Fin 30) (Fin 300)
   \<and> js_gt (Fin 550) (js_add (Fin 300) (js_mul (Fin 30) (Fin 2)))
   \<and> map_option (\<lambda>r. (fst r, process_calls (snd r)))
        (processAudioFileInChunks (quiet_env 550) ''a.mp3'' (Fin 300) (Fin 30) (Fin 1) ok_handler [])
       = Some (Inr (), [(''a.mp3.segment-0-300.mp3'', True), (''a.mp3.segment-270-550.mp3'', True),
                        (''a.mp3.segment-540-550.mp3'', True)])
   \<and> \<lceil>(550 - 30) / (300 - 30 :: rat)\<rceil> = 2"
proof -
  have "\<lceil>(550 - 30) / (300 - 30 :: rat)\<rceil> = 2" by code_simp
  then show ?thesis by (simp add: run_550 js_gt_def round_double_numeral)
qed

text \<open>
  C2 says that in the chunking branch every chunk but the last is exactly \<open>chunkSecs\<close> long
  and that each chunk ends \<open>overlapSecs\<close> after the next one starts. For \<open>D = 550\<close>,
  \<open>C = 300\<close>, \<open>O = 30\<close> the chunks are \<open>(0, 300)\<close>, \<open>(270, 550)\<close>, \<open>(540, 550)\<close>: the second,
  which is not the last, is \<open>280\<close> long, and its end less the overlap is \<open>520\<close>, not the
  start \<open>540\<close> of the third.
\<close>

theorem C2_chunks_at_550:
  "js_lt (Fin 30) (Fin 300)
   \<and> js_gt (Fin 550) (js_add (Fin 300) (js_mul (Fin 30) (Fin 2)))
   \<and> map_option (\<lambda>r. (fst r, chunks (snd r)))
        (processAudioFileInChunks (quiet_env 550) ''a.mp3'' (Fin 300) (Fin 30) (Fin 1) ok_handler [])
       = Some (Inr (), [(Fin 0, Fin 300), (Fin 270, Fin 550), (Fin 540, Fin 550)])
   \<and> js_sub (Fin 550) (Fin 270) = Fin 280
   \<and> js_ne (js_sub (Fin 550) (Fin 270)) (Fin 300)
   \<and> js_ne (js_sub (Fin 550) (Fin 30)) (Fin 540)"
  by (simp add: run_550 js_gt_def js_sub_def js_ne_def chunks_def cmd_span_def round_double_numeral)

text \<open>
  C3, as stated, fails: there is no guard. With \<open>chunkSecs = overlapSecs = 1\<close>, a file of
  \<open>10\<close> seconds and calls that all succeed, the call neither rejects nor resolves: it does
  not return. Nor does \<open>overlapSecs < chunkSecs\<close> alone make the loop end: with
  \<open>chunkSecs = 2\<close>, \<open>overlapSecs = 0\<close> and a duration of \<open>2^55\<close>, the loop that has reached
  \<open>startSecs = 2^54\<close> adds \<open>2\<close> to it, the sum rounds back to \<open>2^54\<close>, and the loop goes on for
  ever.
\<close>

theorem C3_no_guard_counterexample:
  "processAudioFileInChunks (quiet_env 10) ''a.mp3'' (Fin 1) (Fin 1) (Fin 1) ok_handler [] = None
   \<and> js_lt (Fin 0) (Fin 2)
   \<and> js_add (Fin (2 ^ 54)) (js_sub (Fin 2) (Fin 0)) = Fin (2 ^ 54)
   \<and> chunk_loop (quiet_env (2 ^ 55)) ''a.mp3'' (Fin 2) (Fin 0) (Fin 1) ok_handler
        (Fin (2 ^ 55)) (Fin (2 ^ 54)) [] = None"
proof -
  have still: "js_add (Fin 0) (js_sub (Fin 1) (Fin 1)) = Fin 0"
    by (simp add: js_sub_def round_double_numeral)
  have "chunk_loop (quiet_env 10) ''a.mp3'' (Fin 1) (Fin 1) (Fin 1) ok_handler (Fin 10) (Fin 0)
          [EvProbe ''a.mp3'' None] = None"
    by (rule chunk_loop_stalls[OF _ still]) (simp_all add: quiet_env_def ok_handler_def)
  then have first: "processAudioFileInChunks (quiet_env 10) ''a.mp3'' (Fin 1) (Fin 1) (Fin 1)
                      ok_handler [] = None"
    by (simp add: processAudioFileInChunks_def probe_ok_info round_double_numeral)
  have absorbed: "js_add (Fin (2 ^ 54)) (js_sub (Fin 2) (Fin 0)) = Fin (2 ^ 54)"
    by (simp add: js_sub_def round_double_def double_ulp_def exponent_def log2_up.simps
          round_half_even_def Let_def floor_rat_numeral_div)
  have "chunk_loop (quiet_env (2 ^ 55)) ''a.mp3'' (Fin 2) (Fin 0) (Fin 1) ok_handler
          (Fin (2 ^ 55)) (Fin (2 ^ 54)) [] = None"
    by (rule chunk_loop_stalls[OF _ absorbed]) (simp_all add: quiet_env_def ok_handler_def)
  with first absorbed show ?thesis by simp
qed

text \<open>
  C3, amended. There is no guard, but for doubles \<open>chunkSecs\<close> and \<open>overlapSecs\<close> with
  \<open>overlapSecs < chunkSecs\<close> the step \<open>chunkSecs - overlapSecs\<close> is positive, and as long as the
  duration is at most \<open>2^50\<close> times their difference every iteration moves \<open>startSecs\<close>
  forward: the loop returns from every start that is not negative, whatever the outside
  world and the handler answer, and so does the whole call when the probed duration is
  within that bound. The call also returns when \<open>overlapSecs < chunkSecs\<close> and \<open>chunkSecs\<close> is
  \<open>+Infinity\<close> or \<open>overlapSecs\<close> is \<open>-Infinity\<close>.
\<close>

theorem C3_loop_terminates:
  "(is_double c \<and> is_double o' \<and> o' < c \<and> d \<le> 2 ^ 50 * (c - o') \<and> 0 \<le> s \<longrightarrow>
      js_lt (Fin 0) (js_sub (Fin c) (Fin o'))
      \<and> (s < d \<longrightarrow> js_lt (Fin s) (js_add (Fin s) (js_sub (Fin c) (Fin o'))))
      \<and> chunk_loop e path (Fin c) (Fin o') speed fProcess (Fin d) (Fin s) tr \<noteq> None
      \<and> ((\<forall>fmt. ffprobe e tr path = Inr fmt \<longrightarrow>
              \<not> js_lt (Fin (2 ^ 50 * (c - o'))) (nullish_or (format_duration fmt) (Fin 0)))
           \<longrightarrow> processAudioFileInChunks e path (Fin c) (Fin o') speed fProcess tr \<noteq> None))
   \<and> (js_lt overlapSecs chunkSecs \<and> (chunkSecs = PInf \<or> overlapSecs = NInf) \<longrightarrow>
        processAudioFileInChunks e path chunkSecs overlapSecs speed fProcess tr \<noteq> None)"
proof -
  have finite_case:
    "js_lt (Fin 0) (js_sub (Fin c) (Fin o'))
      \<and> (s < d \<longrightarrow> js_lt (Fin s) (js_add (Fin s) (js_sub (Fin c) (Fin o'))))
      \<and> chunk_loop e path (Fin c) (Fin o') speed fProcess (Fin d) (Fin s) tr \<noteq> None
      \<and> ((\<forall>fmt. ffprobe e tr path = Inr fmt \<longrightarrow>
              \<not> js_lt (Fin (2 ^ 50 * (c - o'))) (nullish_or (format_duration fmt) (Fin 0)))
           \<longrightarrow> processAudioFileInChunks e path (Fin c) (Fin o') speed fProcess tr \<noteq> None)"
    if dbl: "is_double c" "is_double o'" and lt: "o' < c"
      and bound: "d \<le> 2 ^ 50 * (c - o')" and s0: "0 \<le> s"
  proof -
    have loop: "chunk_loop e path (Fin c) (Fin o') speed fProcess dur (Fin s') tr' \<noteq> None"
      if "\<not> js_lt (Fin (2 ^ 50 * (c - o'))) dur" and "0 \<le> s'" for dur s' tr'
    proof (cases dur)
      case (Fin d')
      with that(1) have d': "d' \<le> 2 ^ 50 * (c - o')" by simp
      from double_step[OF dbl lt]
      consider "js_sub (Fin c) (Fin o') = PInf"
        | st where "js_sub (Fin c) (Fin o') = Fin st" "min_double \<le> st" "(c - o') / 2 \<le> st"
        by blast
      then show ?thesis
      proof cases
        case 1
        from chunk_loop_infinite_step[OF this, of e path speed fProcess dur s' tr']
        show ?thesis by auto
      next
        case 2
        have "2 ^ 50 * (c - o') = 2 ^ 51 * ((c - o') / 2)" by simp
        also have "\<dots> \<le> 2 ^ 51 * st" using 2(3) by (intro mult_left_mono) simp_all
        finally have "d' \<le> 2 ^ 51 * st" using d' by linarith
        from chunk_loop_terminates[OF 2(1) 2(2) this that(2), of e path speed fProcess tr'] Fin
        show ?thesis by auto
      qed
    next
      case NaN
      then show ?thesis by (simp add: chunk_loop_done)
    next
      case PInf
      with that(1) show ?thesis by simp
    next
      case NInf
      then show ?thesis by (simp add: chunk_loop_done)
    qed
    have step_pos: "js_lt (Fin 0) (js_sub (Fin c) (Fin o'))"
    proof -
      have "0 < min_double" by (rule min_double_pos)
      with double_step[OF dbl lt] show ?thesis by (auto intro: less_le_trans)
    qed
    have advance: "js_lt (Fin s) (js_add (Fin s) (js_sub (Fin c) (Fin o')))" if "s < d"
    proof -
      from double_step[OF dbl lt]
      consider "js_sub (Fin c) (Fin o') = PInf"
        | st where "js_sub (Fin c) (Fin o') = Fin st" "min_double \<le> st" "(c - o') / 2 \<le> st"
        by blast
      then show ?thesis
      proof cases
        case 1
        then show ?thesis by simp
      next
        case 2
        have st: "0 < st" using 2(2) min_double_pos by linarith
        have "2 ^ 50 * (c - o') = 2 ^ 51 * ((c - o') / 2)" by simp
        also have "\<dots> \<le> 2 ^ 51 * st" using 2(3) by (intro mult_left_mono) simp_all
        finally have "d \<le> 2 ^ 51 * st" using bound by linarith
        from step_progress[OF 2(2) s0 that this] st 2(1) show ?thesis by auto
      qed
    qed
    have whole: "processAudioFileInChunks e path (Fin c) (Fin o') speed fProcess tr \<noteq> None"
      if fin: "\<forall>fmt. ffprobe e tr path = Inr fmt \<longrightarrow>
              \<not> js_lt (Fin (2 ^ 50 * (c - o'))) (nullish_or (format_duration fmt) (Fin 0))"
    proof (cases "ffprobe e tr path")
      case (Inl err)
      then show ?thesis by (simp add: processAudioFileInChunks_def getAudioFileInfo_def)
    next
      case (Inr fmt)
      with fin have "\<not> js_lt (Fin (2 ^ 50 * (c - o'))) (nullish_or (format_duration fmt) (Fin 0))"
        by simp
      from loop[OF this, of 0 "tr @ [EvProbe path None]"] Inr show ?thesis
        by (simp add: processAudioFileInChunks_def getAudioFileInfo_def split: option.splits)
    qed
    from step_pos advance loop[of "Fin d" s tr] bound s0 whole show ?thesis by simp
  qed
  have infinite_case:
    "processAudioFileInChunks e path chunkSecs overlapSecs speed fProcess tr \<noteq> None"
    if "js_lt overlapSecs chunkSecs" and "chunkSecs = PInf \<or> overlapSecs = NInf"
  proof -
    from that have step: "js_sub chunkSecs overlapSecs = PInf"
      by (cases chunkSecs; cases overlapSecs) (auto simp add: js_sub_def)
    show ?thesis
    proof (cases "ffprobe e tr path")
      case (Inl err)
      then show ?thesis by (simp add: processAudioFileInChunks_def getAudioFileInfo_def)
    next
      case (Inr fmt)
      from chunk_loop_infinite_step[OF step, of e path speed fProcess
             "nullish_or (format_duration fmt) (Fin 0)" 0 "tr @ [EvProbe path None]"] Inr
      show ?thesis
        by (auto simp add: processAudioFileInChunks_def getAudioFileInfo_def split: option.splits)
    qed
  qed
  from finite_case infinite_case show ?thesis by blast
qed

theorem C3_loop_terminates_witness:
  "is_double 300 \<and> is_double 30 \<and> (30 :: rat) < 300 \<and> (600 :: rat) \<le> 2 ^ 50 * (300 - 30)
   \<and> js_lt (Fin 0) (js_sub (Fin 300) (Fin 30))
   \<and> js_lt (Fin 540) (js_add (Fin 540) (js_sub (Fin 300) (Fin 30)))
   \<and> chunk_loop (quiet_env 600) ''a.mp3'' (Fin 300) (Fin 30) (Fin 1) ok_handler (Fin 600) (Fin 540) []
       \<noteq> None
   \<and> processAudioFileInChunks (quiet_env 600) ''a.mp3'' (Fin 300) (Fin 30) (Fin 1) ok_handler [] \<noteq> None
   \<and> js_lt (Fin 30) PInf
   \<and> processAudioFileInChunks (quiet_env 600) ''a.mp3'' PInf (Fin 30) (Fin 1) ok_handler [] \<noteq> None"
proof -
  have dbl: "is_double 300" "is_double 30"
    by (simp_all add: is_double_def round_double_numeral)
  have lt: "(30 :: rat) < 300" and bound: "(600 :: rat) \<le> 2 ^ 50 * (300 - 30)"
    and s0: "(0 :: rat) \<le> 540" and sd: "(540 :: rat) < 600"
    by simp_all
  have fin: "\<forall>fmt. ffprobe (quiet_env 600) [] ''a.mp3'' = Inr fmt \<longrightarrow>
               \<not> js_lt (Fin (2 ^ 50 * (300 - 30))) (nullish_or (format_duration fmt) (Fin 0))"
    by (simp add: quiet_env_def probe_ok_def nullish_or_def)
  have inf: "js_lt (Fin 30) PInf" by simp
  from C3_loop_terminates [where c = 300 and o' = 30 and d = 600 and s = 540
                             and e = "quiet_env 600" and path = "''a.mp3''" and speed = "Fin 1"
                             and fProcess = ok_handler and tr = "[]"
                             and chunkSecs = PInf and overlapSecs = "Fin 30"]
       dbl lt bound s0 sd fin inf
  show ?thesis by simp
qed

text \<open>
  C4. When the probe succeeds and the duration (\<open>0\<close> if the probe gives none) is at most
  \<open>chunkSecs + 2 * overlapSecs\<close>, the call returns after exactly two events: the probe, and
  one call of the handler on the original path with \<open>isTemporary = false\<close>. It resolves if
  the handler does and rejects with the handler's error otherwise. No command is run and
  no file is produced.
\<close>

theorem C4_short_file:
  assumes "ffprobe e tr path = Inr fmt"
    and "js_le (nullish_or (format_duration fmt) (Fin 0))
           (js_add chunkSecs (js_mul overlapSecs (Fin 2)))"
  shows "processAudioFileInChunks e path chunkSecs overlapSecs speed fProcess tr =
           Some (case fProcess (tr @ [EvProbe path None]) path False of
                   None \<Rightarrow> Inr () | Some err \<Rightarrow> Inl err,
                 tr @ [EvProbe path None,
                       EvProcess path False (fProcess (tr @ [EvProbe path None]) path False)])
    \<and> process_calls [EvProbe path None,
                     EvProcess path False (fProcess (tr @ [EvProbe path None]) path False)]
        = [(path, False)]
    \<and> run_cmds [EvProbe path None,
                EvProcess path False (fProcess (tr @ [EvProbe path None]) path False)] = []
    \<and> produced_files [EvProbe path None,
                      EvProcess path False (fProcess (tr @ [EvProbe path None]) path False)] = []"
  using assms
  by (simp add: processAudioFileInChunks_def getAudioFileInfo_def split: option.splits)

theorem C4_short_file_witness:
  "js_le (Fin 100) (js_add (Fin 300) (js_mul (Fin 30) (Fin 2)))
   \<and> processAudioFileInChunks (quiet_env 100) ''a.mp3'' (Fin 300) (Fin 30) (Fin 1) ok_handler [] =
       Some (Inr (), [EvProbe ''a.mp3'' None, EvProcess ''a.mp3'' False None])"
proof -
  have probe: "ffprobe (quiet_env 100) [] ''a.mp3''
                 = Inr \<lparr>format_duration = Some (Fin 100), format_bit_rate = Some (Fin 128000)\<rparr>"
    by (simp add: quiet_env_def probe_ok_def)
  have short: "js_le (nullish_or (format_duration
                  \<lparr>format_duration = Some (Fin 100), format_bit_rate = Some (Fin 128000)\<rparr>) (Fin 0))
                 (js_add (Fin 300) (js_mul (Fin 30) (Fin 2)))"
    by (simp add: nullish_or_def round_double_numeral)
  from C4_short_file [OF probe short, where speed = "Fin 1" and fProcess = ok_handler]
  show ?thesis by (simp add: ok_handler_def round_double_numeral)
qed

lemma process_trace:
  assumes "processAudioFileInChunks e path chunkSecs overlapSecs speed fProcess tr = Some r"
  shows "\<exists>evs. snd r = tr @ evs \<and> stops_at_failure (fst r) evs"
proof (cases "ffprobe e tr path")
  case (Inl err)
  with assms have "r = (Inl err, tr @ [EvProbe path (Some err)])"
    by (simp add: processAudioFileInChunks_def getAudioFileInfo_def)
  then show ?thesis by (simp add: stops_at_failure_def)
next
  case (Inr fmt)
  define dur where "dur = nullish_or (format_duration fmt) (Fin 0)"
  define tr1 where "tr1 = tr @ [EvProbe path None]"
  show ?thesis
  proof (cases "js_le dur (js_add chunkSecs (js_mul overlapSecs (Fin 2)))")
    case True
    with Inr assms
    have "r = (case fProcess tr1 path False of None \<Rightarrow> Inr () | Some err \<Rightarrow> Inl err,
               tr @ [EvProbe path None, EvProcess path False (fProcess tr1 path False)])"
      by (auto simp add: processAudioFileInChunks_def getAudioFileInfo_def dur_def tr1_def
            split: option.splits)
    then show ?thesis
      by (simp add: stops_at_failure_def ev_ok_def split: option.splits)
  next
    case False
    with Inr assms
    have "chunk_loop e path chunkSecs overlapSecs speed fProcess dur (Fin 0) tr1 = Some r"
      by (simp add: processAudioFileInChunks_def getAudioFileInfo_def dur_def tr1_def)
    from chunk_loop_trace[OF this] obtain evs where
      evs: "snd r = tr1 @ evs" "stops_at_failure (fst r) evs"
      by blast
    have "list_all ev_ok [EvProbe path None]" by (simp add: ev_ok_def)
    from stops_at_failure_prepend[OF this evs(2)] evs(1) show ?thesis
      by (auto simp add: tr1_def)
  qed
qed

text \<open>
  C8. If the probe fails, the call rejects with that error and the probe is the only
  event: no command is run and the handler is not called. At any iteration of the loop, a
  command that fails ends the loop there, rejecting with its error, with no call of the
  handler after it; a handler that fails ends the loop there, rejecting with its error.
  Every call that returns has only added events to the trace, has stopped at the first
  failure, if any, and has left every file produced before it in place.
\<close>

theorem C8_failure_semantics:
  "(ffprobe e tr path = Inl err \<longrightarrow>
      processAudioFileInChunks e path chunkSecs overlapSecs speed fProcess tr =
        Some (Inl err, tr @ [EvProbe path (Some err)]))
   \<and> (js_lt startS dur
       \<and> ffmpeg_run e tr (segment_cmd e path (chunk_settings chunkSecs speed dur startS)) = Some err
      \<longrightarrow>
      chunk_loop e path chunkSecs overlapSecs speed fProcess dur startS tr =
        Some (Inl err,
              tr @ [EvRun (segment_cmd e path (chunk_settings chunkSecs speed dur startS)) (Some err)]))
   \<and> (js_lt startS dur
       \<and> ffmpeg_run e tr (segment_cmd e path (chunk_settings chunkSecs speed dur startS)) = None
       \<and> fProcess (tr @ [EvRun (segment_cmd e path (chunk_settings chunkSecs speed dur startS)) None])
            (segment_newPath e path (chunk_settings chunkSecs speed dur startS)) True = Some err
      \<longrightarrow>
      chunk_loop e path chunkSecs overlapSecs speed fProcess dur startS tr =
        Some (Inl err,
              tr @ [EvRun (segment_cmd e path (chunk_settings chunkSecs speed dur startS)) None,
                    EvProcess (segment_newPath e path (chunk_settings chunkSecs speed dur startS))
                      True (Some err)]))
   \<and> (processAudioFileInChunks e path chunkSecs overlapSecs speed fProcess tr = Some (out, tr')
      \<longrightarrow>
      (\<exists>evs. tr' = tr @ evs \<and> stops_at_failure out evs
             \<and> produced_files tr' = produced_files tr @ produced_files evs))"
proof -
  have "processAudioFileInChunks e path chunkSecs overlapSecs speed fProcess tr =
          Some (Inl err, tr @ [EvProbe path (Some err)])"
    if "ffprobe e tr path = Inl err"
    using that by (simp add: processAudioFileInChunks_def getAudioFileInfo_def)
  moreover
  have "\<exists>evs. tr' = tr @ evs \<and> stops_at_failure out evs
             \<and> produced_files tr' = produced_files tr @ produced_files evs"
    if "processAudioFileInChunks e path chunkSecs overlapSecs speed fProcess tr = Some (out, tr')"
    using process_trace[OF that] by (auto simp add: produced_files_append)
  ultimately show ?thesis
    by (simp add: chunk_loop_step Let_def)
qed

theorem C8_failure_semantics_witness:
  "processAudioFileInChunks missing_env ''a.mp3'' (Fin 300) (Fin 30) (Fin 1) ok_handler [] =
     Some (Inl (Err ''ENOENT''), [EvProbe ''a.mp3'' (Some (Err ''ENOENT''))])
   \<and> chunk_loop (full_disk_env 550 0) ''a.mp3'' (Fin 300) (Fin 30) (Fin 1) ok_handler (Fin 550)
        (Fin 0) [] =
     Some (Inl (Err ''ENOSPC''),
           [EvRun [Input ''a.mp3'', SetStartTime (Fin 0), SetDuration (Fin 300), NoVideo,
                   AudioChannels 1, AudioBitrate (Fin 22050), Output ''a.mp3.segment-0-300.mp3'']
              (Some (Err ''ENOSPC''))])
   \<and> chunk_loop (quiet_env 550) ''a.mp3'' (Fin 300) (Fin 30) (Fin 1) (failing_handler 1) (Fin 550)
        (Fin 0) [] =
     Some (Inl (Err ''handler failed''),
           [EvRun [Input ''a.mp3'', SetStartTime (Fin 0), SetDuration (Fin 300), NoVideo,
                   AudioChannels 1, AudioBitrate (Fin 22050), Output ''a.mp3.segment-0-300.mp3'']
              None,
            EvProcess ''a.mp3.segment-0-300.mp3'' True (Some (Err ''handler failed''))])
   \<and> (\<exists>evs. [EvProbe ''a.mp3'' None,
              EvRun [Input ''a.mp3'', SetStartTime (Fin 0), SetDuration (Fin 300), NoVideo,
                     AudioChannels 1, AudioBitrate (Fin 22050), Output ''a.mp3.segment-0-300.mp3'']
                None,
              EvProcess ''a.mp3.segment-0-300.mp3'' True None,
              EvRun [Input ''a.mp3'', SetStartTime (Fin 270), SetDuration (Fin 280), NoVideo,
                     AudioChannels 1, AudioBitrate (Fin 22050), Output ''a.mp3.segment-270-550.mp3'']
                (Some (Err ''ENOSPC''))] = [] @ evs
            \<and> stops_at_failure (Inl (Err ''ENOSPC'')) evs
            \<and> produced_files evs = [''a.mp3.segment-0-300.mp3''])"
proof -
  let ?cmd0 = "[Input ''a.mp3'', SetStartTime (Fin 0), SetDuration (Fin 300), NoVideo,
                AudioChannels 1, AudioBitrate (Fin 22050), Output ''a.mp3.segment-0-300.mp3'']"
  let ?cmd1 = "[Input ''a.mp3'', SetStartTime (Fin 270), SetDuration (Fin 280), NoVideo,
                AudioChannels 1, AudioBitrate (Fin 22050), Output ''a.mp3.segment-270-550.mp3'']"
  have probe: "ffprobe missing_env [] ''a.mp3'' = Inl (Err ''ENOENT'')"
    by (simp add: missing_env_def)
  have lt: "js_lt (Fin 0) (Fin 550)" by simp
  have cmd_full: "segment_cmd (full_disk_env 550 0) ''a.mp3''
                    (chunk_settings (Fin 300) (Fin 1) (Fin 550) (Fin 0)) = ?cmd0"
    and cmd_quiet: "segment_cmd (quiet_env 550) ''a.mp3''
                    (chunk_settings (Fin 300) (Fin 1) (Fin 550) (Fin 0)) = ?cmd0"
    and path_quiet: "segment_newPath (quiet_env 550) ''a.mp3''
                    (chunk_settings (Fin 300) (Fin 1) (Fin 550) (Fin 0)) = ''a.mp3.segment-0-300.mp3''"
    by (simp_all add: processAudioFileInChunks_def getAudioFileInfo_def quiet_env_def full_disk_env_def
        probe_ok_def nullish_or_def chunk_loop.simps getAudioFileSegment_def ok_handler_def
        chunk_settings_def js_min_def js_sub_def segment_cmd_def segment_newPath_def
        effective_playbackSpeed_def js_ne_def js_gt_def TARGET_VOICE_TO_TEXT_BITRATE_def
        number_to_string_def int_to_string_def digits.simps Let_def round_double_numeral)
  have run_fails: "ffmpeg_run (full_disk_env 550 0) [] ?cmd0 = Some (Err ''ENOSPC'')"
    by (simp add: full_disk_env_def)
  have run_ok: "ffmpeg_run (quiet_env 550) [] ?cmd0 = None"
    by (simp add: quiet_env_def)
  have handler_fails: "failing_handler 1 ([] @ [EvRun ?cmd0 None]) ''a.mp3.segment-0-300.mp3'' True
                         = Some (Err ''handler failed'')"
    by (simp add: failing_handler_def)
  have whole: "processAudioFileInChunks (full_disk_env 550 3) ''a.mp3'' (Fin 300) (Fin 30) (Fin 1)
                 ok_handler [] =
      Some (Inl (Err ''ENOSPC''),
            [EvProbe ''a.mp3'' None, EvRun ?cmd0 None, EvProcess ''a.mp3.segment-0-300.mp3'' True None,
             EvRun ?cmd1 (Some (Err ''ENOSPC''))])"
    by (simp add: processAudioFileInChunks_def getAudioFileInfo_def quiet_env_def full_disk_env_def
        probe_ok_def nullish_or_def chunk_loop.simps getAudioFileSegment_def ok_handler_def
        chunk_settings_def js_min_def js_sub_def segment_cmd_def segment_newPath_def
        effective_playbackSpeed_def js_ne_def js_gt_def TARGET_VOICE_TO_TEXT_BITRATE_def
        number_to_string_def int_to_string_def digits.simps Let_def round_double_numeral)
  from C8_failure_semantics [where e = missing_env and tr = "[]" and path = "''a.mp3''"
                               and err = "Err ''ENOENT''" and chunkSecs = "Fin 300"
                               and overlapSecs = "Fin 30" and speed = "Fin 1"
                               and fProcess = ok_handler]
       probe
  have first: "processAudioFileInChunks missing_env ''a.mp3'' (Fin 300) (Fin 30) (Fin 1) ok_handler [] =
     Some (Inl (Err ''ENOENT''), [EvProbe ''a.mp3'' (Some (Err ''ENOENT''))])"
    by simp
  from C8_failure_semantics [where e = "full_disk_env 550 0" and tr = "[]" and path = "''a.mp3''"
                               and err = "Err ''ENOSPC''" and chunkSecs = "Fin 300"
                               and overlapSecs = "Fin 30" and speed = "Fin 1"
                               and fProcess = ok_handler and startS = "Fin 0" and dur = "Fin 550"]
       lt cmd_full run_fails
  have second: "chunk_loop (full_disk_env 550 0) ''a.mp3'' (Fin 300) (Fin 30) (Fin 1) ok_handler
                  (Fin 550) (Fin 0) [] = Some (Inl (Err ''ENOSPC''), [EvRun ?cmd0 (Some (Err ''ENOSPC''))])"
    by simp
  from C8_failure_semantics [where e = "quiet_env 550" and tr = "[]" and path = "''a.mp3''"
                               and err = "Err ''handler failed''" and chunkSecs = "Fin 300"
                               and overlapSecs = "Fin 30" and speed = "Fin 1"
                               and fProcess = "failing_handler 1" and startS = "Fin 0"
                               and dur = "Fin 550"]
       lt cmd_quiet path_quiet run_ok handler_fails
  have third: "chunk_loop (quiet_env 550) ''a.mp3'' (Fin 300) (Fin 30) (Fin 1) (failing_handler 1)
                 (Fin 550) (Fin 0) [] =
     Some (Inl (Err ''handler failed''),
           [EvRun ?cmd0 None,
            EvProcess ''a.mp3.segment-0-300.mp3'' True (Some (Err ''handler failed''))])"
    by simp
  from C8_failure_semantics [where e = "full_disk_env 550 3" and tr = "[]" and path = "''a.mp3''"
                               and chunkSecs = "Fin 300" and overlapSecs = "Fin 30"
                               and speed = "Fin 1" and fProcess = ok_handler
                               and out = "Inl (Err ''ENOSPC'')"
                               and tr' = "[EvProbe ''a.mp3'' None, EvRun ?cmd0 None,
                                           EvProcess ''a.mp3.segment-0-300.mp3'' True None,
                                           EvRun ?cmd1 (Some (Err ''ENOSPC''))]"]
       whole
  have fourth: "\<exists>evs. [EvProbe ''a.mp3'' None, EvRun ?cmd0 None,
                       EvProcess ''a.mp3.segment-0-300.mp3'' True None,
                       EvRun ?cmd1 (Some (Err ''ENOSPC''))] = [] @ evs
            \<and> stops_at_failure (Inl (Err ''ENOSPC'')) evs
            \<and> produced_files evs = [''a.mp3.segment-0-300.mp3'']"
    by simp
  from first second third fourth show ?thesis by blast
qed

end
